theory Spec2Isabelle
  imports Main "HOL-Library.Stream" "HOL-Library.AList"
begin

section \<open>HubSpot deal and activity export: a shallow embedding\<close>

text \<open>
  The development follows \<^verbatim>\<open>src/hubspot-sync.js\<close>: the sync script (token refresh,
  paginated deal listing, batched resolution of associated engagement objects, the per-deal
  activity record and the export driver) and the \<^verbatim>\<open>updateEnvFile\<close> of the OAuth script.

  Conventions of the model.
  \<^item> An \<^verbatim>\<open>async\<close> function is a function of the world that returns the new world with
    either the raised error (\<open>Inl\<close>) or the returned value (\<open>Inr\<close>).
  \<^item> The vendor is a stream of answers per capability: the \<open>k\<close>-th call of a capability gets
    the \<open>k\<close>-th answer, whatever it is, and every request is appended to a log. Since the
    program is sequential and deterministic, every vendor behaviour is such a stream.
  \<^item> The \<^verbatim>\<open>while\<close> loop of \<^verbatim>\<open>getAllDeals\<close> and the recursion of
    \<^verbatim>\<open>getAssociatedObjects\<close> are not bounded by the code. They take a fuel argument
    that bounds the number of requests; \<open>None\<close> says that the fuel did not suffice.
  \<^item> Console output is not modelled.
\<close>

subsection \<open>JavaScript strings\<close>

text \<open>Truthiness of a possibly undefined string: \<^verbatim>\<open>undefined\<close> and \<^verbatim>\<open>''\<close> are falsy.\<close>

definition truthy :: "string option \<Rightarrow> bool" where
  "truthy s = (case s of None \<Rightarrow> False | Some v \<Rightarrow> v \<noteq> [])"

definition startsWith :: "string \<Rightarrow> string \<Rightarrow> bool" where
  "startsWith s sub = (take (length sub) s = sub)"

text \<open>\<^verbatim>\<open>s.includes(sub)\<close>.\<close>

fun includes_str :: "string \<Rightarrow> string \<Rightarrow> bool" where
  "includes_str [] sub = (sub = [])"
| "includes_str (c # cs) sub = (startsWith (c # cs) sub \<or> includes_str cs sub)"

text \<open>
  The leftmost occurrence of a literal: the text before it and the text after it.
\<close>

fun search :: "string \<Rightarrow> string \<Rightarrow> (string \<times> string) option" where
  "search lit [] = (if lit = [] then Some ([], []) else None)"
| "search lit (c # cs) =
     (if startsWith (c # cs) lit then Some ([], drop (length lit) (c # cs))
      else (case search lit cs of
              None \<Rightarrow> None
            | Some (before, rest) \<Rightarrow> Some (c # before, rest)))"

text \<open>
  The characters that \<^verbatim>\<open>.\<close> does not match in a regular expression without the
  \<^verbatim>\<open>s\<close> flag. Of the four line terminators of ECMAScript, LF and CR are characters of
  \<^typ>\<open>string\<close>; U+2028 and U+2029 are not.
\<close>

definition lineTerminator :: "char \<Rightarrow> bool" where
  "lineTerminator c = (c = CHR 0x0A \<or> c = CHR 0x0D)"

text \<open>
  The replacement text of \<^verbatim>\<open>String.prototype.replace\<close> with a string as second argument
  and a pattern with one capture group: \<^verbatim>\<open>$$\<close> is a dollar sign, \<^verbatim>\<open>$&\<close> the match,
  \<^verbatim>\<open>$`\<close> the text before the match, \<^verbatim>\<open>$'\<close> the text after it, \<^verbatim>\<open>$1\<close> and
  \<^verbatim>\<open>$01\<close> the capture group; every other character stands for itself.
\<close>

fun getSubstitution :: "string \<Rightarrow> string \<Rightarrow> string \<Rightarrow> string \<Rightarrow> string \<Rightarrow> string" where
  "getSubstitution matched before after cap [] = []"
| "getSubstitution matched before after cap [c] = [c]"
| "getSubstitution matched before after cap (c # d # rest) =
     (if c = CHR ''$'' then
        (if d = CHR ''$'' then CHR ''$'' # getSubstitution matched before after cap rest
         else if d = CHR ''&'' then matched @ getSubstitution matched before after cap rest
         else if d = CHR 0x60 then before @ getSubstitution matched before after cap rest
         else if d = CHR 0x27 then after @ getSubstitution matched before after cap rest
         else if d = CHR ''1'' then cap @ getSubstitution matched before after cap rest
         else if d = CHR ''0'' \<and> rest \<noteq> [] \<and> hd rest = CHR ''1''
           then cap @ getSubstitution matched before after cap (tl rest)
         else c # getSubstitution matched before after cap (d # rest))
      else c # getSubstitution matched before after cap (d # rest))"

text \<open>
  \<^verbatim>\<open>str.replace(/KEY(.*)/, replacement)\<close> for a literal \<open>KEY\<close>: the pattern has no
  \<^verbatim>\<open>g\<close> flag, so only the leftmost match is replaced; the match starts at the leftmost
  occurrence of the literal, wherever in a line that is, and the greedy group runs to the
  next line terminator or to the end of the text.
\<close>

definition replace :: "string \<Rightarrow> string \<Rightarrow> string \<Rightarrow> string" where
  "replace str key replacement =
     (case search key str of
        None \<Rightarrow> str
      | Some (before, rest) \<Rightarrow>
          (let cap = takeWhile (\<lambda>c. \<not> lineTerminator c) rest;
               after = dropWhile (\<lambda>c. \<not> lineTerminator c) rest
           in before @ getSubstitution (key @ cap) before after cap replacement @ after))"

text \<open>
  The decimal text of an integer, as a template literal prints a number (exact for the
  integers a double holds exactly and prints without exponent).
\<close>

definition digit :: "nat \<Rightarrow> char" where
  "digit n = ''0123456789'' ! n"

fun digits :: "nat \<Rightarrow> string" where
  "digits n = (if n < 10 then [digit n] else digits (n div 10) @ [digit (n mod 10)])"

declare digits.simps [simp del]

definition numberToString :: "int \<Rightarrow> string" where
  "numberToString i = (if i < 0 then CHR ''-'' # digits (nat (- i)) else digits (nat i))"

subsection \<open>Data model\<close>

text \<open>
  A thrown value: its \<^verbatim>\<open>message\<close> and, for a filesystem error, its \<^verbatim>\<open>code\<close>.
\<close>

datatype error = Error (message: string) (code: "string option")

text \<open>
  The module-level \<^verbatim>\<open>config\<close> object. The token fields come from the environment and
  may be undefined.
\<close>

record config =
  accessToken :: "string option"
  refreshToken :: "string option"
  clientId :: "string option"
  clientSecret :: "string option"
  tokenExpiresAt :: "int option"
  outputDir :: string
  batchSize :: int
  includeAssociations :: bool

text \<open>The \<^verbatim>\<open>tokens\<close> object built by \<^verbatim>\<open>refreshAccessToken\<close>.\<close>

record tokens =
  tok_accessToken :: string
  tok_refreshToken :: string
  tok_expiresAt :: int

text \<open>The answer of the OAuth token endpoint.\<close>

record token_response =
  res_accessToken :: string
  res_refreshToken :: string
  res_expiresIn :: int

text \<open>A deal: its vendor-assigned \<^verbatim>\<open>id\<close> and its properties, passed through.\<close>

record deal =
  deal_ident :: string
  deal_properties :: "(string \<times> string) list"

text \<open>
  A page of the deal listing: \<^verbatim>\<open>results\<close> and \<^verbatim>\<open>paging\<close>, where
  \<^verbatim>\<open>paging\<close>, \<^verbatim>\<open>paging.next\<close> and \<^verbatim>\<open>paging.next.after\<close> may each be absent.
\<close>

record next_page =
  after :: "string option"

record paging_info =
  "next" :: "next_page option"

record page_response =
  page_results :: "deal list"
  paging :: "paging_info option"

text \<open>An association reference and the answer of the association listing.\<close>

record association =
  toObjectId :: string
  associationTypes :: "string list"

record assoc_response =
  assoc_results :: "association list"

text \<open>An engagement object (opaque) and the answer of a batched read.\<close>

record engagement =
  eng_ident :: string
  eng_properties :: "(string \<times> string) list"

record batch_response =
  batch_results :: "engagement list"

text \<open>The five batched-read capabilities of the client, one per engagement type.\<close>

datatype batch_api = NotesApi | EmailsApi | CallsApi | MeetingsApi | TasksApi

text \<open>
  What \<^verbatim>\<open>getAssociatedObjects\<close> returns: the object
  \<^verbatim>\<open>{ associations, objects }\<close>, or the bare array \<^verbatim>\<open>associations.results\<close>.
\<close>

datatype resolved =
    Resolved (associations: "association list") (objects: "engagement list")
  | RawAssociations "association list"

text \<open>
  The activity record of a deal. \<^verbatim>\<open>activity_types\<close> is an object whose keys are kept
  in insertion order; \<^verbatim>\<open>error\<close> is present in the degraded record only.
\<close>

record activities =
  deal_id :: string
  timestamp :: int
  error_field :: "string option"
  activity_types :: "(string \<times> resolved) list"

text \<open>What \<^verbatim>\<open>saveToFile\<close> serialises.\<close>

datatype document = DealsDoc "deal list" | ActivitiesDoc activities

subsection \<open>The world\<close>

text \<open>
  \<^item> \<open>config\<close> and \<open>clientToken\<close>: the mutable state of the module, the configuration
    and the bearer credential of \<^verbatim>\<open>hubspotClient\<close>.
  \<^item> \<open>now\<close>: what \<^verbatim>\<open>Date.now()\<close> reads.
  \<^item> Per vendor capability, the answers still to come and the log of the requests made.
  \<^item> \<open>envFile\<close> and \<open>envExample\<close>: the contents of \<^verbatim>\<open>.env\<close> and
    \<^verbatim>\<open>.env.example\<close>, \<open>None\<close> when the file does not exist.
  \<^item> \<open>fsFaults\<close>: per filesystem operation still to come, the error it fails with, or
    \<open>None\<close> when the filesystem lets it proceed.
  \<^item> \<open>outWrites\<close>: the files written by \<^verbatim>\<open>saveToFile\<close>, oldest first, each with its
    name relative to \<^verbatim>\<open>config.outputDir\<close>.
\<close>

record world =
  config :: config
  clientToken :: "string option"
  now :: int
  pageAnswers :: "(error + page_response) stream"
  pageRequests :: "(int \<times> string option \<times> string option) list"
  assocAnswers :: "(error + assoc_response) stream"
  assocRequests :: "(string \<times> string \<times> string option) list"
  batchAnswers :: "(error + batch_response) stream"
  batchRequests :: "(batch_api \<times> string list \<times> string option) list"
  tokenAnswers :: "(error + token_response) stream"
  tokenRequests :: "(string option \<times> string option \<times> string option) list"
  envFile :: "string option"
  envExample :: "string option"
  fsFaults :: "error option stream"
  outWrites :: "(string \<times> document) list"

type_synonym 'a outcome = "(error + 'a) \<times> world"

subsection \<open>Vendor and filesystem calls\<close>

text \<open>\<^verbatim>\<open>hubspotClient.crm.deals.basicApi.getPage(limit, after, properties, associations)\<close>.\<close>

definition getPage :: "int \<Rightarrow> string option \<Rightarrow> world \<Rightarrow> page_response outcome" where
  "getPage limit aft w =
     (shd (pageAnswers w),
      w\<lparr>pageAnswers := stl (pageAnswers w),
        pageRequests := pageRequests w @ [(limit, aft, clientToken w)]\<rparr>)"

text \<open>\<^verbatim>\<open>hubspotClient.crm.deals.associationsApi.getAll(dealId, objectType)\<close>.\<close>

definition associationsApi_getAll :: "string \<Rightarrow> string \<Rightarrow> world \<Rightarrow> assoc_response outcome" where
  "associationsApi_getAll dealId objectType w =
     (shd (assocAnswers w),
      w\<lparr>assocAnswers := stl (assocAnswers w),
        assocRequests := assocRequests w @ [(dealId, objectType, clientToken w)]\<rparr>)"

text \<open>\<^verbatim>\<open>hubspotClient.crm.objects.<type>.batchApi.read({ inputs: batchIds.map(id => ({ id })) })\<close>.\<close>

definition batchApi_read :: "batch_api \<Rightarrow> string list \<Rightarrow> world \<Rightarrow> batch_response outcome" where
  "batchApi_read api batchIds w =
     (shd (batchAnswers w),
      w\<lparr>batchAnswers := stl (batchAnswers w),
        batchRequests := batchRequests w @ [(api, batchIds, clientToken w)]\<rparr>)"

text \<open>
  \<^verbatim>\<open>tempClient.oauth.tokensApi.create('refresh_token', undefined, undefined, clientId,
  clientSecret, refreshToken)\<close>.
\<close>

definition tokensApi_create ::
  "string option \<Rightarrow> string option \<Rightarrow> string option \<Rightarrow> world \<Rightarrow> token_response outcome" where
  "tokensApi_create cid secret rtoken w =
     (shd (tokenAnswers w),
      w\<lparr>tokenAnswers := stl (tokenAnswers w),
        tokenRequests := tokenRequests w @ [(cid, secret, rtoken)]\<rparr>)"

text \<open>\<^verbatim>\<open>hubspotClient.setAccessToken(newToken)\<close>.\<close>

definition setAccessToken :: "string \<Rightarrow> world \<Rightarrow> world" where
  "setAccessToken newToken w = w\<lparr>clientToken := Some newToken\<rparr>"

text \<open>
  \<^verbatim>\<open>fs.readFile('.env', 'utf8')\<close> and \<^verbatim>\<open>fs.readFile('.env.example', 'utf8')\<close>: reading a
  file that does not exist fails with \<^verbatim>\<open>ENOENT\<close>.
\<close>

definition enoent :: error where
  "enoent = Error ''ENOENT: no such file or directory'' (Some ''ENOENT'')"

definition readFile_env :: "world \<Rightarrow> string outcome" where
  "readFile_env w =
     (let w1 = w\<lparr>fsFaults := stl (fsFaults w)\<rparr>
      in case shd (fsFaults w) of
           Some e \<Rightarrow> (Inl e, w1)
         | None \<Rightarrow> (case envFile w of None \<Rightarrow> (Inl enoent, w1) | Some c \<Rightarrow> (Inr c, w1)))"

definition readFile_envExample :: "world \<Rightarrow> string outcome" where
  "readFile_envExample w =
     (let w1 = w\<lparr>fsFaults := stl (fsFaults w)\<rparr>
      in case shd (fsFaults w) of
           Some e \<Rightarrow> (Inl e, w1)
         | None \<Rightarrow> (case envExample w of None \<Rightarrow> (Inl enoent, w1) | Some c \<Rightarrow> (Inr c, w1)))"

text \<open>\<^verbatim>\<open>fs.writeFile('.env', content)\<close>.\<close>

definition writeFile_env :: "string \<Rightarrow> world \<Rightarrow> unit outcome" where
  "writeFile_env content w =
     (let w1 = w\<lparr>fsFaults := stl (fsFaults w)\<rparr>
      in case shd (fsFaults w) of
           Some e \<Rightarrow> (Inl e, w1)
         | None \<Rightarrow> (Inr (), w1\<lparr>envFile := Some content\<rparr>))"

text \<open>\<^verbatim>\<open>fs.mkdir(directory, { recursive: true })\<close>.\<close>

definition mkdir :: "string \<Rightarrow> world \<Rightarrow> unit outcome" where
  "mkdir directory w =
     (let w1 = w\<lparr>fsFaults := stl (fsFaults w)\<rparr>
      in case shd (fsFaults w) of Some e \<Rightarrow> (Inl e, w1) | None \<Rightarrow> (Inr (), w1))"

subsection \<open>Token manager\<close>

text \<open>
  \<^verbatim>\<open>updateEnvFile\<close> of the sync script (lines 19 to 34). \<open>updateEnvFile_try\<close> is the
  \<^verbatim>\<open>try\<close> block; the \<^verbatim>\<open>catch\<close> block logs the error and returns.
\<close>

definition updateTokenValues :: "tokens \<Rightarrow> string \<Rightarrow> string" where
  "updateTokenValues tks dotEnvContent =
     (let c1 = replace dotEnvContent ''HUBSPOT_ACCESS_TOKEN=''
                 (''HUBSPOT_ACCESS_TOKEN='' @ tok_accessToken tks);
          c2 = replace c1 ''HUBSPOT_REFRESH_TOKEN=''
                 (''HUBSPOT_REFRESH_TOKEN='' @ tok_refreshToken tks);
          c3 = replace c2 ''HUBSPOT_TOKEN_EXPIRES_AT=''
                 (''HUBSPOT_TOKEN_EXPIRES_AT='' @ numberToString (tok_expiresAt tks))
      in c3)"

definition updateEnvFile_try :: "tokens \<Rightarrow> world \<Rightarrow> unit outcome" where
  "updateEnvFile_try tks w =
     (case readFile_env w of
        (Inl e, w1) \<Rightarrow> (Inl e, w1)
      | (Inr dotEnvContent, w1) \<Rightarrow> writeFile_env (updateTokenValues tks dotEnvContent) w1)"

definition updateEnvFile :: "tokens \<Rightarrow> world \<Rightarrow> unit outcome" where
  "updateEnvFile tks w =
     (case updateEnvFile_try tks w of
        (Inl e, w1) \<Rightarrow> (Inr (), w1)
      | (Inr u, w1) \<Rightarrow> (Inr u, w1))"

text \<open>
  \<^verbatim>\<open>updateEnvFile\<close> of the OAuth script (lines 514 to 553): when \<^verbatim>\<open>.env\<close> cannot be
  read the content is taken from \<^verbatim>\<open>.env.example\<close>, and when that cannot be read either,
  from a template built with the three constants of the script.
\<close>

record oauth_constants =
  HUBSPOT_CLIENT_ID :: string
  HUBSPOT_CLIENT_SECRET :: string
  HUBSPOT_REDIRECT_URI :: string

definition envTemplate :: "oauth_constants \<Rightarrow> string" where
  "envTemplate k =
     [CHR 0x0A] @ ''HUBSPOT_CLIENT_ID='' @ HUBSPOT_CLIENT_ID k @
     [CHR 0x0A] @ ''HUBSPOT_CLIENT_SECRET='' @ HUBSPOT_CLIENT_SECRET k @
     [CHR 0x0A] @ ''HUBSPOT_REDIRECT_URI='' @ HUBSPOT_REDIRECT_URI k @
     [CHR 0x0A, CHR 0x0A] @ ''# OAuth tokens'' @
     [CHR 0x0A] @ ''HUBSPOT_ACCESS_TOKEN='' @
     [CHR 0x0A] @ ''HUBSPOT_REFRESH_TOKEN='' @
     [CHR 0x0A] @ ''HUBSPOT_TOKEN_EXPIRES_AT='' @
     [CHR 0x0A, CHR 0x0A] @ ''# Configuration'' @
     [CHR 0x0A] @ ''OUTPUT_DIR=./data'' @
     [CHR 0x0A] @ ''BATCH_SIZE=100'' @ [CHR 0x0A]"

definition oauth_updateEnvFile_try :: "oauth_constants \<Rightarrow> tokens \<Rightarrow> world \<Rightarrow> unit outcome" where
  "oauth_updateEnvFile_try k tks w =
     (case readFile_env w of
        (Inr dotEnvContent, w1) \<Rightarrow> writeFile_env (updateTokenValues tks dotEnvContent) w1
      | (Inl e, w1) \<Rightarrow>
          (case readFile_envExample w1 of
             (Inr dotEnvContent, w2) \<Rightarrow> writeFile_env (updateTokenValues tks dotEnvContent) w2
           | (Inl e', w2) \<Rightarrow> writeFile_env (updateTokenValues tks (envTemplate k)) w2))"

definition oauth_updateEnvFile :: "oauth_constants \<Rightarrow> tokens \<Rightarrow> world \<Rightarrow> unit outcome" where
  "oauth_updateEnvFile k tks w =
     (case oauth_updateEnvFile_try k tks w of
        (Inl e, w1) \<Rightarrow> (Inr (), w1)
      | (Inr u, w1) \<Rightarrow> (Inr u, w1))"

text \<open>
  \<^verbatim>\<open>refreshAccessToken\<close> of the sync script (lines 37 to 69). The \<^verbatim>\<open>catch\<close> block
  logs and rethrows, so an error of the \<^verbatim>\<open>try\<close> block is the error of the function.
\<close>

definition refreshAccessToken :: "world \<Rightarrow> string outcome" where
  "refreshAccessToken w =
     (case tokensApi_create (clientId (config w)) (clientSecret (config w))
             (refreshToken (config w)) w of
        (Inl e, w1) \<Rightarrow> (Inl e, w1)
      | (Inr result, w1) \<Rightarrow>
          (let tks = \<lparr>tok_accessToken = res_accessToken result,
                      tok_refreshToken = res_refreshToken result,
                      tok_expiresAt = now w1 + res_expiresIn result * 1000\<rparr>;
               w2 = w1\<lparr>config := (config w1)\<lparr>accessToken := Some (tok_accessToken tks),
                                               refreshToken := Some (tok_refreshToken tks),
                                               tokenExpiresAt := Some (tok_expiresAt tks)\<rparr>\<rparr>
           in case updateEnvFile tks w2 of
                (Inl e, w3) \<Rightarrow> (Inl e, w3)
              | (Inr u, w3) \<Rightarrow> (Inr (tok_accessToken tks), w3)))"

subsection \<open>Paginated deal fetcher\<close>

text \<open>
  The test of the \<^verbatim>\<open>catch\<close> blocks:
  \<^verbatim>\<open>error.message && error.message.includes('401') && config.refreshToken\<close>.
\<close>

definition authExpired :: "error \<Rightarrow> world \<Rightarrow> bool" where
  "authExpired e w = (includes_str (message e) ''401'' \<and> truthy (refreshToken (config w)))"

text \<open>
  The \<^verbatim>\<open>while (hasMore)\<close> loop of \<^verbatim>\<open>getAllDeals\<close> (lines 122 to 160); its state is
  the accumulator \<^verbatim>\<open>deals\<close> and the cursor \<^verbatim>\<open>after\<close>. One unit of fuel is one
  iteration, that is one request.
\<close>

fun getAllDeals_loop ::
  "nat \<Rightarrow> deal list \<Rightarrow> string option \<Rightarrow> world \<Rightarrow> (deal list outcome) option" where
  "getAllDeals_loop 0 deals aft w = None"
| "getAllDeals_loop (Suc fuel) deals aft w =
     (case getPage (batchSize (config w)) aft w of
        (Inr response, w1) \<Rightarrow>
          (let deals' = deals @ page_results response
           in case paging response of
                None \<Rightarrow> Some (Inr deals', w1)
              | Some p \<Rightarrow>
                  (case next p of
                     None \<Rightarrow> Some (Inr deals', w1)
                   | Some n \<Rightarrow> getAllDeals_loop fuel deals' (after n) w1))
      | (Inl e, w1) \<Rightarrow>
          (if authExpired e w1 then
             (case refreshAccessToken w1 of
                (Inr newToken, w2) \<Rightarrow>
                  getAllDeals_loop fuel deals aft (setAccessToken newToken w2)
              | (Inl refreshError, w2) \<Rightarrow> Some (Inl refreshError, w2))
           else Some (Inl e, w1)))"

declare getAllDeals_loop.simps [simp del]

text \<open>
  \<^verbatim>\<open>getAllDeals\<close>: the loop from an empty accumulator and an undefined cursor. The outer
  \<^verbatim>\<open>catch\<close> block logs and rethrows.
\<close>

definition getAllDeals :: "nat \<Rightarrow> world \<Rightarrow> (deal list outcome) option" where
  "getAllDeals fuel w = getAllDeals_loop fuel [] None w"

subsection \<open>Association resolver\<close>

text \<open>\<^verbatim>\<open>xs.slice(i, j)\<close> for \<open>i \<le> j\<close>.\<close>

definition slice :: "'a list \<Rightarrow> nat \<Rightarrow> nat \<Rightarrow> 'a list" where
  "slice xs i j = take (j - i) (drop i xs)"

text \<open>The \<^verbatim>\<open>switch (objectType)\<close> of lines 199 to 224; \<open>None\<close> is its default case.\<close>

definition batchApiOf :: "string \<Rightarrow> batch_api option" where
  "batchApiOf objectType =
     (if objectType = ''notes'' then Some NotesApi
      else if objectType = ''emails'' then Some EmailsApi
      else if objectType = ''calls'' then Some CallsApi
      else if objectType = ''meetings'' then Some MeetingsApi
      else if objectType = ''tasks'' then Some TasksApi
      else None)"

text \<open>
  The \<^verbatim>\<open>for (let i = 0; i < objectIds.length; i += batchSize)\<close> loop (lines 191 to 235)
  with \<^verbatim>\<open>batchSize = 100\<close>, from index \<open>i\<close> with the objects read so far. The inner
  \<^verbatim>\<open>catch\<close> block logs the error of a batched read and the loop goes on; the default
  case of the switch returns the association array from inside the loop.
\<close>

function batch_loop ::
  "string \<Rightarrow> association list \<Rightarrow> string list \<Rightarrow> nat \<Rightarrow> engagement list \<Rightarrow> world
     \<Rightarrow> resolved outcome" where
  "batch_loop objectType assocs objectIds i fullObjects w =
     (if i < length objectIds then
        (let batchIds = slice objectIds i (i + 100)
         in case batchApiOf objectType of
              None \<Rightarrow> (Inr (RawAssociations assocs), w)
            | Some api \<Rightarrow>
                (case batchApi_read api batchIds w of
                   (Inr batchObjects, w1) \<Rightarrow>
                     batch_loop objectType assocs objectIds (i + 100)
                       (fullObjects @ batch_results batchObjects) w1
                 | (Inl batchError, w1) \<Rightarrow>
                     batch_loop objectType assocs objectIds (i + 100) fullObjects w1))
      else (Inr (Resolved assocs fullObjects), w))"
  by pat_completeness auto
termination
  by (relation "measure (\<lambda>(objectType, assocs, objectIds, i, fullObjects, w). length objectIds - i)")
    auto

declare batch_loop.simps [simp del]

text \<open>The \<^verbatim>\<open>try\<close> block of \<^verbatim>\<open>getAssociatedObjects\<close> (lines 172 to 244).\<close>

definition getAssociatedObjects_try :: "string \<Rightarrow> string \<Rightarrow> world \<Rightarrow> resolved outcome" where
  "getAssociatedObjects_try dealId objectType w =
     (case associationsApi_getAll dealId objectType w of
        (Inl e, w1) \<Rightarrow> (Inl e, w1)
      | (Inr assocs, w1) \<Rightarrow>
          (if length (assoc_results assocs) > 0 then
             batch_loop objectType (assoc_results assocs)
               (map toObjectId (assoc_results assocs)) 0 [] w1
           else (Inr (Resolved [] []), w1)))"

text \<open>
  \<^verbatim>\<open>getAssociatedObjects\<close> with its \<^verbatim>\<open>catch\<close> block (lines 245 to 258): on an expired
  token it refreshes, outside any \<^verbatim>\<open>try\<close>, and calls itself again; on any other error
  it returns the empty pair. One unit of fuel is one call of the function.
\<close>

fun getAssociatedObjects ::
  "nat \<Rightarrow> string \<Rightarrow> string \<Rightarrow> world \<Rightarrow> (resolved outcome) option" where
  "getAssociatedObjects 0 dealId objectType w = None"
| "getAssociatedObjects (Suc fuel) dealId objectType w =
     (case getAssociatedObjects_try dealId objectType w of
        (Inr r, w1) \<Rightarrow> Some (Inr r, w1)
      | (Inl e, w1) \<Rightarrow>
          (if authExpired e w1 then
             (case refreshAccessToken w1 of
                (Inl refreshError, w2) \<Rightarrow> Some (Inl refreshError, w2)
              | (Inr newToken, w2) \<Rightarrow>
                  getAssociatedObjects fuel dealId objectType (setAccessToken newToken w2))
           else Some (Inr (Resolved [] []), w1)))"

declare getAssociatedObjects.simps [simp del]

subsection \<open>Activity aggregator\<close>

definition activityTypes :: "string list" where
  "activityTypes = [''notes'', ''calls'', ''meetings'', ''emails'', ''tasks'']"

text \<open>
  The \<^verbatim>\<open>for (const type of activityTypes)\<close> loop (lines 277 to 280):
  \<^verbatim>\<open>activities.activity_types[type] = results\<close> sets the key, appending it when new.
\<close>

fun activityTypes_loop ::
  "nat \<Rightarrow> string \<Rightarrow> string list \<Rightarrow> activities \<Rightarrow> world \<Rightarrow> (activities outcome) option" where
  "activityTypes_loop fuel dealId [] acts w = Some (Inr acts, w)"
| "activityTypes_loop fuel dealId (type # types) acts w =
     (case getAssociatedObjects fuel dealId type w of
        None \<Rightarrow> None
      | Some (Inl e, w1) \<Rightarrow> Some (Inl e, w1)
      | Some (Inr results, w1) \<Rightarrow>
          activityTypes_loop fuel dealId types
            (acts\<lparr>activity_types := AList.update type results (activity_types acts)\<rparr>) w1)"

text \<open>
  The \<^verbatim>\<open>try\<close> block of \<^verbatim>\<open>getDealActivities\<close> (lines 265 to 288). The total that it
  computes is only logged.
\<close>

definition getDealActivities_try :: "nat \<Rightarrow> string \<Rightarrow> world \<Rightarrow> (activities outcome) option" where
  "getDealActivities_try fuel dealId w =
     activityTypes_loop fuel dealId activityTypes
       \<lparr>deal_id = dealId, timestamp = now w, error_field = None, activity_types = []\<rparr> w"

text \<open>The record of the \<^verbatim>\<open>catch\<close> block (lines 293 to 304).\<close>

definition emptyResult :: "string \<Rightarrow> int \<Rightarrow> string \<Rightarrow> activities" where
  "emptyResult dealId time msg =
     \<lparr>deal_id = dealId, timestamp = time, error_field = Some msg,
      activity_types =
        [(''notes'', Resolved [] []),
         (''calls'', Resolved [] []),
         (''meetings'', Resolved [] []),
         (''emails'', Resolved [] []),
         (''tasks'', Resolved [] [])]\<rparr>"

definition getDealActivities :: "nat \<Rightarrow> string \<Rightarrow> world \<Rightarrow> (activities outcome) option" where
  "getDealActivities fuel dealId w =
     (case getDealActivities_try fuel dealId w of
        None \<Rightarrow> None
      | Some (Inr acts, w1) \<Rightarrow> Some (Inr acts, w1)
      | Some (Inl e, w1) \<Rightarrow> Some (Inr (emptyResult dealId (now w1) (message e)), w1))"

subsection \<open>Export driver\<close>

text \<open>
  \<^verbatim>\<open>ensureDirectoryExists\<close> (lines 96 to 105) and \<^verbatim>\<open>saveToFile\<close> (lines 108 to 112).
  Directory and file names are kept relative to \<^verbatim>\<open>config.outputDir\<close>.
\<close>

definition ensureDirectoryExists :: "string \<Rightarrow> world \<Rightarrow> unit outcome" where
  "ensureDirectoryExists directory w =
     (case mkdir directory w of
        (Inr u, w1) \<Rightarrow> (Inr (), w1)
      | (Inl e, w1) \<Rightarrow> (if code e \<noteq> Some ''EEXIST'' then (Inl e, w1) else (Inr (), w1)))"

definition saveToFile :: "document \<Rightarrow> string \<Rightarrow> world \<Rightarrow> unit outcome" where
  "saveToFile data filename w =
     (let w1 = w\<lparr>fsFaults := stl (fsFaults w)\<rparr>
      in case shd (fsFaults w) of
           Some e \<Rightarrow> (Inl e, w1)
         | None \<Rightarrow> (Inr (), w1\<lparr>outWrites := outWrites w1 @ [(filename, data)]\<rparr>))"

text \<open>
  \<^verbatim>\<open>data => data.associations && data.associations.length > 0\<close>: a bare array has no
  \<^verbatim>\<open>associations\<close> property.
\<close>

definition hasAssociations :: "resolved \<Rightarrow> bool" where
  "hasAssociations data =
     (case data of Resolved a b \<Rightarrow> length a > 0 | RawAssociations a \<Rightarrow> False)"

definition hasActivities :: "activities \<Rightarrow> bool" where
  "hasActivities acts = list_ex hasAssociations (map snd (activity_types acts))"

definition activityFile :: "string \<Rightarrow> string" where
  "activityFile dealId = ''activities/'' @ dealId @ ''.json''"

text \<open>The \<^verbatim>\<open>for (const deal of deals)\<close> loop (lines 324 to 341).\<close>

fun deals_loop :: "nat \<Rightarrow> deal list \<Rightarrow> world \<Rightarrow> (unit outcome) option" where
  "deals_loop fuel [] w = Some (Inr (), w)"
| "deals_loop fuel (d # rest) w =
     (case getDealActivities fuel (deal_ident d) w of
        None \<Rightarrow> None
      | Some (Inl e, w1) \<Rightarrow> Some (Inl e, w1)
      | Some (Inr acts, w1) \<Rightarrow>
          (if hasActivities acts then
             (case saveToFile (ActivitiesDoc acts) (activityFile (deal_ident d)) w1 of
                (Inl e, w2) \<Rightarrow> Some (Inl e, w2)
              | (Inr u, w2) \<Rightarrow> deals_loop fuel rest w2)
           else deals_loop fuel rest w1))"

text \<open>
  \<^verbatim>\<open>exportDealsAndActivities\<close> (lines 309 to 347): its \<^verbatim>\<open>try\<close> block, and the function
  with the \<^verbatim>\<open>catch\<close> block that logs the failure.
\<close>

definition exportDealsAndActivities_try :: "nat \<Rightarrow> world \<Rightarrow> (unit outcome) option" where
  "exportDealsAndActivities_try fuel w =
     (case ensureDirectoryExists [] w of
        (Inl e, w1) \<Rightarrow> Some (Inl e, w1)
      | (Inr u, w1) \<Rightarrow>
          (case ensureDirectoryExists ''activities'' w1 of
             (Inl e, w2) \<Rightarrow> Some (Inl e, w2)
           | (Inr u, w2) \<Rightarrow>
               (case getAllDeals fuel w2 of
                  None \<Rightarrow> None
                | Some (Inl e, w3) \<Rightarrow> Some (Inl e, w3)
                | Some (Inr deals, w3) \<Rightarrow>
                    (case saveToFile (DealsDoc deals) ''deals.json'' w3 of
                       (Inl e, w4) \<Rightarrow> Some (Inl e, w4)
                     | (Inr u, w4) \<Rightarrow> deals_loop fuel deals w4))))"

definition exportDealsAndActivities :: "nat \<Rightarrow> world \<Rightarrow> (unit outcome) option" where
  "exportDealsAndActivities fuel w =
     (case exportDealsAndActivities_try fuel w of
        None \<Rightarrow> None
      | Some (Inl e, w1) \<Rightarrow> Some (Inr (), w1)
      | Some (Inr u, w1) \<Rightarrow> Some (Inr (), w1))"

subsection \<open>Notions used to state the properties\<close>

text \<open>
  Consecutive chunks of at most \<open>n\<close> elements: the partition that the resolver is to make
  of the object ids, with \<open>n = 100\<close>.
\<close>

function chunks :: "nat \<Rightarrow> 'a list \<Rightarrow> 'a list list" where
  "chunks n xs = (if n = 0 \<or> xs = [] then [] else take n xs # chunks n (drop n xs))"
  by pat_completeness auto
termination
  by (relation "measure (\<lambda>(n, xs). length xs)") auto

declare chunks.simps [simp del]

text \<open>The objects that an answer to a batched read contributes: none when the read failed.\<close>

definition objectsOf :: "error + batch_response \<Rightarrow> engagement list" where
  "objectsOf a = (case a of Inl e \<Rightarrow> [] | Inr b \<Rightarrow> batch_results b)"

text \<open>
  \<^verbatim>\<open>response.paging && response.paging.next\<close>, and what a pagination sequence is: a
  non-empty list of pages of which the last one, and no other, lacks a next-page cursor.
\<close>

definition nextOf :: "page_response \<Rightarrow> next_page option" where
  "nextOf p = (case paging p of None \<Rightarrow> None | Some pg \<Rightarrow> next pg)"

definition pagination :: "page_response list \<Rightarrow> bool" where
  "pagination pages =
     (pages \<noteq> [] \<and> (\<forall>p \<in> set (butlast pages). nextOf p \<noteq> None) \<and> nextOf (last pages) = None)"

text \<open>
  The cursor of the fetcher after a page, and the cursors of the requests that fetch a list
  of pages from a given cursor.
\<close>

definition cursorAfter :: "string option \<Rightarrow> page_response \<Rightarrow> string option" where
  "cursorAfter aft p = (case nextOf p of None \<Rightarrow> aft | Some n \<Rightarrow> after n)"

fun cursorsFrom :: "string option \<Rightarrow> page_response list \<Rightarrow> string option list" where
  "cursorsFrom aft [] = []"
| "cursorsFrom aft (p # ps) = aft # cursorsFrom (cursorAfter aft p) ps"

text \<open>
  The world after a request for a page with cursor \<open>aft\<close>, and the world after
  \<^verbatim>\<open>refreshAccessToken\<close> followed, when it succeeded, by \<^verbatim>\<open>setAccessToken\<close>.
\<close>

definition afterPageRequest :: "string option \<Rightarrow> world \<Rightarrow> world" where
  "afterPageRequest aft w =
     w\<lparr>pageAnswers := stl (pageAnswers w),
       pageRequests := pageRequests w @ [(batchSize (config w), aft, clientToken w)]\<rparr>"

definition afterRefresh :: "world \<Rightarrow> world" where
  "afterRefresh w =
     (case fst (refreshAccessToken w) of
        Inl e \<Rightarrow> snd (refreshAccessToken w)
      | Inr newToken \<Rightarrow> setAccessToken newToken (snd (refreshAccessToken w)))"

text \<open>The world after a request for the associations of a deal.\<close>

definition afterAssocRequest :: "string \<Rightarrow> string \<Rightarrow> world \<Rightarrow> world" where
  "afterAssocRequest dealId objectType w =
     w\<lparr>assocAnswers := stl (assocAnswers w),
       assocRequests := assocRequests w @ [(dealId, objectType, clientToken w)]\<rparr>"

text \<open>
  An answer is an expiry when it is an error whose message holds \<^verbatim>\<open>401\<close>. A stream
  of answers is quiet from \<open>n\<close> on when no answer from the \<open>n\<close>-th on is an expiry: the
  vendor does not go on answering \<^verbatim>\<open>401\<close> for ever.
\<close>

definition expiry :: "error + 'a \<Rightarrow> bool" where
  "expiry a = (case a of Inl e \<Rightarrow> includes_str (message e) ''401'' | Inr r \<Rightarrow> False)"

definition quiet :: "nat \<Rightarrow> (error + 'a) stream \<Rightarrow> bool" where
  "quiet n s = (\<forall>j \<ge> n. \<not> expiry (s !! j))"

text \<open>
  The records that \<^verbatim>\<open>getDealActivities\<close> returns for a list of deals, each call made
  in the world that the call before left; and the files that the driver is to write for
  them: \<^verbatim>\<open>activities/{dealId}.json\<close> for each deal whose record has an engagement
  type with a non-empty association list, in the order of the deals.
\<close>

fun aggregates :: "nat \<Rightarrow> deal list \<Rightarrow> world \<Rightarrow> activities list" where
  "aggregates fuel [] w = []"
| "aggregates fuel (d # ds) w =
     (case getDealActivities fuel (deal_ident d) w of
        Some (Inr acts, w1) \<Rightarrow> acts # aggregates fuel ds w1
      | _ \<Rightarrow> [])"

declare aggregates.simps(2) [simp del]

definition activityWrites :: "deal list \<Rightarrow> activities list \<Rightarrow> (string \<times> document) list" where
  "activityWrites ds recs =
     map (\<lambda>(d, acts). (activityFile (deal_ident d), ActivitiesDoc acts))
       (filter (\<lambda>(d, acts). hasActivities acts) (zip ds recs))"

text \<open>
  A world is calm when the filesystem lets every operation still to come proceed.
\<close>

definition calm :: "world \<Rightarrow> bool" where
  "calm w = (fsFaults w = sconst None)"

text \<open>An outcome with the log of written files replaced.\<close>

definition withWrites :: "(string \<times> document) list \<Rightarrow> 'a outcome \<Rightarrow> 'a outcome" where
  "withWrites x p = (fst p, (snd p)\<lparr>outWrites := x\<rparr>)"

definition withWritesOpt ::
  "(string \<times> document) list \<Rightarrow> 'a outcome option \<Rightarrow> 'a outcome option" where
  "withWritesOpt x = map_option (withWrites x)"

text \<open>A text file given by its lines, each ended by a line feed.\<close>

definition unlines :: "string list \<Rightarrow> string" where
  "unlines ls = concat (map (\<lambda>l. l @ [CHR 0x0A]) ls)"

text \<open>
  The access tokens that the requests of a call bear when the token endpoint answers its
  refreshes with \<open>trs\<close>: the installed one, then the one of each answer; and the refresh
  tokens that its token requests send: the configured one, then the one of each answer.
\<close>

definition bearers :: "world \<Rightarrow> token_response list \<Rightarrow> string option list" where
  "bearers w trs = clientToken w # map (\<lambda>tr. Some (res_accessToken tr)) trs"

definition refreshTokens :: "world \<Rightarrow> token_response list \<Rightarrow> string option list" where
  "refreshTokens w trs = refreshToken (config w) # map (\<lambda>tr. Some (res_refreshToken tr)) trs"

text \<open>
  The world after \<open>n\<close> rounds of a request \<open>req\<close> followed by
  \<^verbatim>\<open>refreshAccessToken\<close>.
\<close>

fun retries :: "(world \<Rightarrow> world) \<Rightarrow> nat \<Rightarrow> world \<Rightarrow> world" where
  "retries req 0 w = w"
| "retries req (Suc n) w = retries req n (afterRefresh (req w))"

subsection \<open>Example data\<close>

text \<open>
  A world in which every vendor call fails with a server error and the filesystem lets
  every operation proceed; the examples below change the answers they need.
\<close>

definition exampleConfig :: config where
  "exampleConfig =
     \<lparr>accessToken = Some ''token-0'', refreshToken = Some ''refresh-0'',
      clientId = Some ''client'', clientSecret = Some ''secret'', tokenExpiresAt = None,
      outputDir = ''./data'', batchSize = 100, includeAssociations = True\<rparr>"

definition unauthorized :: error where
  "unauthorized = Error ''HTTP-Code: 401'' None"

definition unavailable :: error where
  "unavailable = Error ''HTTP-Code: 503'' None"

definition exampleWorld :: world where
  "exampleWorld =
     \<lparr>config = exampleConfig, clientToken = Some ''token-0'', now = 1000,
      pageAnswers = sconst (Inl unavailable), pageRequests = [],
      assocAnswers = sconst (Inl unavailable), assocRequests = [],
      batchAnswers = sconst (Inl unavailable), batchRequests = [],
      tokenAnswers = sconst (Inl unavailable), tokenRequests = [],
      envFile = None, envExample = None,
      fsFaults = sconst None, outWrites = []\<rparr>"

definition exampleAssociation :: association where
  "exampleAssociation = \<lparr>toObjectId = ''501'', associationTypes = []\<rparr>"

definition note1 :: engagement where
  "note1 = \<lparr>eng_ident = ''501'', eng_properties = [(''hs_note_body'', ''called'')]\<rparr>"

definition note2 :: engagement where
  "note2 = \<lparr>eng_ident = ''502'', eng_properties = []\<rparr>"

text \<open>A deal with 250 associated notes, whose second batched read fails.\<close>

definition listing250 :: assoc_response where
  "listing250 = \<lparr>assoc_results = replicate 250 exampleAssociation\<rparr>"

definition world250 :: world where
  "world250 = exampleWorld
     \<lparr>assocAnswers := Inr listing250 ## sconst (Inl unavailable),
      batchAnswers := Inr \<lparr>batch_results = [note1]\<rparr> ## Inl unavailable ##
                      Inr \<lparr>batch_results = [note2]\<rparr> ## sconst (Inl unavailable)\<rparr>"

text \<open>
  Three deals on two pages, and the same listing with the token expiring at the request
  for the second page.
\<close>

definition dealA :: deal where
  "dealA = \<lparr>deal_ident = ''A'', deal_properties = [(''dealname'', ''Alpha'')]\<rparr>"

definition dealB :: deal where
  "dealB = \<lparr>deal_ident = ''B'', deal_properties = [(''dealname'', ''Beta'')]\<rparr>"

definition dealC :: deal where
  "dealC = \<lparr>deal_ident = ''C'', deal_properties = []\<rparr>"

definition page1 :: page_response where
  "page1 = \<lparr>page_results = [dealA, dealB],
            paging = Some \<lparr>next = Some \<lparr>after = Some ''2''\<rparr>\<rparr>\<rparr>"

definition page2 :: page_response where
  "page2 = \<lparr>page_results = [dealC], paging = None\<rparr>"

definition tokenResponse1 :: token_response where
  "tokenResponse1 =
     \<lparr>res_accessToken = ''token-1'', res_refreshToken = ''refresh-1'', res_expiresIn = 1800\<rparr>"

definition worldTwoPages :: world where
  "worldTwoPages = exampleWorld\<lparr>pageAnswers := [Inr page1, Inr page2] @- sconst (Inl unavailable)\<rparr>"

definition worldExpiredOnPage2 :: world where
  "worldExpiredOnPage2 = exampleWorld
     \<lparr>pageAnswers := [Inr page1] @- (Inl unauthorized ## ([Inr page2] @- sconst (Inl unavailable))),
      tokenAnswers := Inr tokenResponse1 ## sconst (Inl unavailable)\<rparr>"

text \<open>
  Both listings answer \<^verbatim>\<open>401\<close> and the token endpoint is down; and a deal with one
  associated contact.
\<close>

definition worldRefreshFails :: world where
  "worldRefreshFails = exampleWorld
     \<lparr>pageAnswers := Inl unauthorized ## sconst (Inl unavailable),
      assocAnswers := Inl unauthorized ## sconst (Inl unavailable)\<rparr>"

definition worldContacts :: world where
  "worldContacts = exampleWorld
     \<lparr>assocAnswers := Inr \<lparr>assoc_results = [exampleAssociation]\<rparr> ## sconst (Inl unavailable)\<rparr>"

text \<open>The token exchange succeeds and \<^verbatim>\<open>.env\<close> can be read but not written.\<close>

definition permissionDenied :: error where
  "permissionDenied = Error ''EACCES: permission denied'' (Some ''EACCES'')"

definition worldWriteFails :: world where
  "worldWriteFails = exampleWorld
     \<lparr>tokenAnswers := Inr tokenResponse1 ## sconst (Inl unavailable),
      envFile := Some ''HUBSPOT_ACCESS_TOKEN=token-0'',
      fsFaults := None ## Some permissionDenied ## sconst None\<rparr>"

text \<open>Both listings answer \<^verbatim>\<open>401\<close> twice before they answer.\<close>

definition tokenResponse2 :: token_response where
  "tokenResponse2 =
     \<lparr>res_accessToken = ''token-2'', res_refreshToken = ''refresh-2'', res_expiresIn = 1800\<rparr>"

definition worldExpiredTwice :: world where
  "worldExpiredTwice = exampleWorld
     \<lparr>pageAnswers := Inl unauthorized ## Inl unauthorized ## Inr page2 ## sconst (Inl unavailable),
      assocAnswers := Inl unauthorized ## Inl unauthorized ##
                      Inr \<lparr>assoc_results = []\<rparr> ## sconst (Inl unavailable),
      tokenAnswers := Inr tokenResponse1 ## Inr tokenResponse2 ## sconst (Inl unavailable)\<rparr>"

text \<open>
  An export of two deals on one page: the first has one note, the listings of everything
  else fail.
\<close>

definition pageCA :: page_response where
  "pageCA = \<lparr>page_results = [dealC, dealA], paging = None\<rparr>"

definition worldExport :: world where
  "worldExport = exampleWorld
     \<lparr>pageAnswers := Inr pageCA ## sconst (Inl unavailable),
      assocAnswers := Inr \<lparr>assoc_results = [exampleAssociation]\<rparr> ## sconst (Inl unavailable),
      batchAnswers := Inr \<lparr>batch_results = [note1]\<rparr> ## sconst (Inl unavailable)\<rparr>"

definition recordC :: activities where
  "recordC =
     \<lparr>deal_id = ''C'', timestamp = 1000, error_field = None,
      activity_types =
        [(''notes'', Resolved [exampleAssociation] [note1]),
         (''calls'', Resolved [] []),
         (''meetings'', Resolved [] []),
         (''emails'', Resolved [] []),
         (''tasks'', Resolved [] [])]\<rparr>"

text \<open>
  A world is idle when every association listing still to come fails with the server error.
\<close>

definition idle :: "world \<Rightarrow> bool" where
  "idle v = (assocAnswers v = sconst (Inl unavailable))"

text \<open>
  A configuration file with a setting whose name ends in \<^verbatim>\<open>HUBSPOT_ACCESS_TOKEN\<close>
  above the three token lines, and the tokens of a refresh.
\<close>

definition stagingEnv :: string where
  "stagingEnv = unlines
     [''STAGING_HUBSPOT_ACCESS_TOKEN=stg-0'',
      ''HUBSPOT_ACCESS_TOKEN=token-0'',
      ''HUBSPOT_REFRESH_TOKEN=refresh-0'',
      ''HUBSPOT_TOKEN_EXPIRES_AT=1000'',
      ''OUTPUT_DIR=./data'']"

definition tokens1 :: tokens where
  "tokens1 = \<lparr>tok_accessToken = ''token-1'', tok_refreshToken = ''refresh-1'',
              tok_expiresAt = 1801000\<rparr>"

definition oauthConstants :: oauth_constants where
  "oauthConstants = \<lparr>HUBSPOT_CLIENT_ID = ''client'', HUBSPOT_CLIENT_SECRET = ''secret'',
     HUBSPOT_REDIRECT_URI = ''http://localhost:3000/oauth-callback''\<rparr>"

definition worldStaging :: world where
  "worldStaging = exampleWorld\<lparr>envFile := Some stagingEnv\<rparr>"

text \<open>A deal with no association: the listing is answered with an empty array.\<close>

definition worldNoAssociations :: world where
  "worldNoAssociations = exampleWorld
     \<lparr>assocAnswers := Inr \<lparr>assoc_results = []\<rparr> ## sconst (Inl unavailable)\<rparr>"

text \<open>
  The second page, and the association listing, fail twice with \<^verbatim>\<open>401\<close> and are
  then answered; and they fail three times, the third refresh finding the token endpoint
  down.
\<close>

definition worldExpiredTwiceOnPage2 :: world where
  "worldExpiredTwiceOnPage2 = exampleWorld
     \<lparr>pageAnswers := Inr page1 ## Inl unauthorized ## Inl unauthorized ## Inr page2 ##
                     sconst (Inl unavailable),
      assocAnswers := Inl unauthorized ## Inl unauthorized ##
                      Inr \<lparr>assoc_results = [exampleAssociation]\<rparr> ## sconst (Inl unavailable),
      tokenAnswers := Inr tokenResponse1 ## Inr tokenResponse2 ## sconst (Inl unavailable)\<rparr>"

definition worldExpiredThrice :: world where
  "worldExpiredThrice = exampleWorld
     \<lparr>pageAnswers := Inr page1 ## Inl unauthorized ## Inl unauthorized ## Inl unauthorized ##
                     sconst (Inl unavailable),
      assocAnswers := Inl unauthorized ## Inl unauthorized ## Inl unauthorized ##
                      sconst (Inl unavailable),
      tokenAnswers := Inr tokenResponse1 ## Inr tokenResponse2 ## sconst (Inl unavailable)\<rparr>"

text \<open>A deal with one note, whose batched read fails with \<^verbatim>\<open>401\<close>.\<close>

definition worldReadExpired :: world where
  "worldReadExpired = exampleWorld
     \<lparr>assocAnswers := Inr \<lparr>assoc_results = [exampleAssociation]\<rparr> ## sconst (Inl unavailable),
      batchAnswers := Inl unauthorized ## sconst (Inl unavailable)\<rparr>"

section \<open>Properties\<close>

subsection \<open>Chunks\<close>

lemma chunks_Nil [simp]: "chunks n [] = []"
  by (simp add: chunks.simps)

lemma chunks_step: "0 < n \<Longrightarrow> xs \<noteq> [] \<Longrightarrow> chunks n xs = take n xs # chunks n (drop n xs)"
  by (subst chunks.simps) simp

lemma concat_chunks: "0 < n \<Longrightarrow> concat (chunks n xs) = xs"
proof (induction n xs rule: chunks.induct)
  case (1 n xs)
  show ?case
  proof (cases "xs = []")
    case True
    then show ?thesis by simp
  next
    case False
    with 1 show ?thesis by (simp add: chunks_step)
  qed
qed

lemma chunks_bounds: "c \<in> set (chunks n xs) \<Longrightarrow> 0 < length c \<and> length c \<le> n"
proof (induction n xs rule: chunks.induct)
  case (1 n xs)
  show ?case
  proof (cases "n = 0 \<or> xs = []")
    case True
    with 1(2) show ?thesis by (auto simp: chunks.simps)
  next
    case False
    with 1 show ?thesis by (auto simp: chunks_step)
  qed
qed

lemma ceil_step: "0 < (m::nat) \<Longrightarrow> Suc ((m - 100 + 99) div 100) = (m + 99) div 100"
proof (cases "100 \<le> m")
  case True
  then obtain k where k: "m = k + 100" by (metis le_add_diff_inverse2)
  show ?thesis unfolding k by simp
next
  case False
  assume "0 < m"
  with False have "m - 100 = 0" and "(m + 99) div 100 = 1" by simp_all
  then show ?thesis by simp
qed

lemma length_chunks: "length (chunks 100 xs) = (length xs + 99) div 100"
proof (induction "100::nat" xs rule: chunks.induct)
  case (1 xs)
  show ?case
  proof (cases "xs = []")
    case True
    then show ?thesis by simp
  next
    case False
    have "length (chunks 100 (drop 100 xs)) = (length (drop 100 xs) + 99) div 100"
      using 1 False by simp
    moreover have "chunks 100 xs = take 100 xs # chunks 100 (drop 100 xs)"
      using False by (simp add: chunks_step)
    moreover have "0 < length xs" using False by simp
    ultimately show ?thesis
      by (simp only: length_Cons length_drop ceil_step)
  qed
qed

lemma chunks_250: "length xs = 250 \<Longrightarrow> map length (chunks 100 xs) = [100, 100, 50]"
proof -
  assume l: "length xs = 250"
  have 1: "chunks 100 xs = take 100 xs # chunks 100 (drop 100 xs)"
    using l by (intro chunks_step) auto
  have 2: "chunks 100 (drop 100 xs) = take 100 (drop 100 xs) # chunks 100 (drop 100 (drop 100 xs))"
    using l by (intro chunks_step) auto
  have 3: "chunks 100 (drop 100 (drop 100 xs)) =
      take 100 (drop 100 (drop 100 xs)) # chunks 100 (drop 100 (drop 100 (drop 100 xs)))"
    using l by (intro chunks_step) auto
  have 4: "drop 100 (drop 100 (drop 100 xs)) = []"
    using l by simp
  show ?thesis
    unfolding 1 2 3 4 using l by simp
qed

subsection \<open>The batch loop\<close>

lemma objectsOf_simps [simp]:
  "objectsOf (Inl e) = []" "objectsOf (Inr b) = batch_results b"
  by (simp_all add: objectsOf_def)

lemma batch_loop_done:
  "\<not> i < length objectIds \<Longrightarrow>
   batch_loop objectType assocs objectIds i fullObjects w = (Inr (Resolved assocs fullObjects), w)"
  by (subst batch_loop.simps) simp

lemma batch_loop_step:
  "i < length objectIds \<Longrightarrow> batchApiOf objectType = Some api \<Longrightarrow>
   batch_loop objectType assocs objectIds i fullObjects w =
   batch_loop objectType assocs objectIds (i + 100)
     (fullObjects @ objectsOf (shd (batchAnswers w)))
     (w\<lparr>batchAnswers := stl (batchAnswers w),
        batchRequests := batchRequests w @
          [(api, take 100 (drop i objectIds), clientToken w)]\<rparr>)"
  apply (subst batch_loop.simps)
  apply (simp only: if_True Let_def option.case batchApi_read_def slice_def prod.case add_diff_cancel_left')
  apply (cases "shd (batchAnswers w)")
   apply (simp_all only: sum.case objectsOf_simps append_Nil2)
  done

lemma batch_loop_recognized:
  assumes "batchApiOf objectType = Some api"
  shows "batch_loop objectType assocs objectIds i fullObjects w =
     (Inr (Resolved assocs
            (fullObjects @
             concat (map objectsOf (stake (length (chunks 100 (drop i objectIds))) (batchAnswers w))))),
      w\<lparr>batchAnswers := sdrop (length (chunks 100 (drop i objectIds))) (batchAnswers w),
        batchRequests := batchRequests w @
          map (\<lambda>c. (api, c, clientToken w)) (chunks 100 (drop i objectIds))\<rparr>)"
  using assms
proof (induction objectType assocs objectIds i fullObjects w rule: batch_loop.induct)
  case (1 objectType assocs objectIds i fullObjects w)
  show ?case
  proof (cases "i < length objectIds")
    case False
    then show ?thesis by (simp add: batch_loop_done)
  next
    case True
    let ?w1 = "w\<lparr>batchAnswers := stl (batchAnswers w),
                 batchRequests := batchRequests w @
                   [(api, take 100 (drop i objectIds), clientToken w)]\<rparr>"
    let ?objs = "fullObjects @ objectsOf (shd (batchAnswers w))"
    have step: "chunks 100 (drop i objectIds) =
        take 100 (drop i objectIds) # chunks 100 (drop (i + 100) objectIds)"
      using True by (simp add: chunks_step add.commute)
    have ih: "batch_loop objectType assocs objectIds (i + 100) ?objs ?w1 =
       (Inr (Resolved assocs (?objs @
             concat (map objectsOf (stake (length (chunks 100 (drop (i + 100) objectIds)))
                (batchAnswers ?w1))))),
          ?w1\<lparr>batchAnswers := sdrop (length (chunks 100 (drop (i + 100) objectIds)))
                (batchAnswers ?w1),
              batchRequests := batchRequests ?w1 @
                map (\<lambda>c. (api, c, clientToken ?w1)) (chunks 100 (drop (i + 100) objectIds))\<rparr>)"
    proof (cases "shd (batchAnswers w)")
      case (Inl e)
      have rd: "(Inl e, ?w1) = batchApi_read api (slice objectIds i (i + 100)) w"
        by (simp add: batchApi_read_def slice_def Inl)
      show ?thesis using 1(1)[OF True refl 1(3) rd refl 1(3)] by (simp add: Inl)
    next
      case (Inr b)
      have rd: "(Inr b, ?w1) = batchApi_read api (slice objectIds i (i + 100)) w"
        by (simp add: batchApi_read_def slice_def Inr)
      show ?thesis using 1(2)[OF True refl 1(3) rd refl 1(3)] by (simp add: Inr)
    qed
    show ?thesis
      unfolding batch_loop_step[OF True 1(3)] ih step by simp
  qed
qed

lemma getAssociatedObjects_listing:
  assumes api: "batchApiOf objectType = Some api"
    and listing: "shd (assocAnswers w) = Inr listing"
    and nonempty: "assoc_results listing \<noteq> []"
  shows "getAssociatedObjects (Suc fuel) dealId objectType w =
     Some (Inr (Resolved (assoc_results listing)
            (concat (map objectsOf
               (stake (length (chunks 100 (map toObjectId (assoc_results listing))))
                  (batchAnswers w))))),
      w\<lparr>assocAnswers := stl (assocAnswers w),
        assocRequests := assocRequests w @ [(dealId, objectType, clientToken w)],
        batchAnswers :=
          sdrop (length (chunks 100 (map toObjectId (assoc_results listing)))) (batchAnswers w),
        batchRequests := batchRequests w @
          map (\<lambda>c. (api, c, clientToken w)) (chunks 100 (map toObjectId (assoc_results listing)))\<rparr>)"
  using listing nonempty
  by (simp add: getAssociatedObjects.simps getAssociatedObjects_try_def
      associationsApi_getAll_def batch_loop_recognized[OF api])

lemma batchApiOf_notes: "batchApiOf ''notes'' = Some NotesApi"
  by (simp add: batchApiOf_def)

subsection \<open>Token refresh\<close>

lemma refreshAccessToken_frame [simp]:
  "pageAnswers (snd (refreshAccessToken w)) = pageAnswers w"
  "pageRequests (snd (refreshAccessToken w)) = pageRequests w"
  "assocAnswers (snd (refreshAccessToken w)) = assocAnswers w"
  "assocRequests (snd (refreshAccessToken w)) = assocRequests w"
  "batchAnswers (snd (refreshAccessToken w)) = batchAnswers w"
  "batchRequests (snd (refreshAccessToken w)) = batchRequests w"
  "clientToken (snd (refreshAccessToken w)) = clientToken w"
  "now (snd (refreshAccessToken w)) = now w"
  "outWrites (snd (refreshAccessToken w)) = outWrites w"
  "tokenAnswers (snd (refreshAccessToken w)) = stl (tokenAnswers w)"
  "tokenRequests (snd (refreshAccessToken w)) =
     tokenRequests w @ [(clientId (config w), clientSecret (config w), refreshToken (config w))]"
  "batchSize (config (snd (refreshAccessToken w))) = batchSize (config w)"
  by (simp_all add: refreshAccessToken_def tokensApi_create_def updateEnvFile_def
      updateEnvFile_try_def readFile_env_def writeFile_env_def Let_def
      split: sum.splits prod.splits option.splits)

lemma refreshAccessToken_result:
  "shd (tokenAnswers w) = Inr tr \<Longrightarrow> fst (refreshAccessToken w) = Inr (res_accessToken tr)"
  "shd (tokenAnswers w) = Inl e \<Longrightarrow> fst (refreshAccessToken w) = Inl e"
  by (simp_all add: refreshAccessToken_def tokensApi_create_def updateEnvFile_def
      updateEnvFile_try_def readFile_env_def writeFile_env_def Let_def
      split: sum.splits prod.splits option.splits)

lemma refreshAccessToken_config:
  "shd (tokenAnswers w) = Inr tr \<Longrightarrow>
   config (snd (refreshAccessToken w)) =
     (config w)\<lparr>accessToken := Some (res_accessToken tr),
               refreshToken := Some (res_refreshToken tr),
               tokenExpiresAt := Some (now w + res_expiresIn tr * 1000)\<rparr>"
  "shd (tokenAnswers w) = Inl e \<Longrightarrow> config (snd (refreshAccessToken w)) = config w"
  by (simp_all add: refreshAccessToken_def tokensApi_create_def updateEnvFile_def
      updateEnvFile_try_def readFile_env_def writeFile_env_def Let_def
      split: sum.splits prod.splits option.splits)

lemma afterRefresh_frame [simp]:
  "pageAnswers (afterRefresh w) = pageAnswers w"
  "pageRequests (afterRefresh w) = pageRequests w"
  "assocAnswers (afterRefresh w) = assocAnswers w"
  "assocRequests (afterRefresh w) = assocRequests w"
  "batchAnswers (afterRefresh w) = batchAnswers w"
  "batchRequests (afterRefresh w) = batchRequests w"
  "now (afterRefresh w) = now w"
  "outWrites (afterRefresh w) = outWrites w"
  "tokenAnswers (afterRefresh w) = stl (tokenAnswers w)"
  "tokenRequests (afterRefresh w) =
     tokenRequests w @ [(clientId (config w), clientSecret (config w), refreshToken (config w))]"
  "batchSize (config (afterRefresh w)) = batchSize (config w)"
  by (simp_all add: afterRefresh_def setAccessToken_def split: sum.splits)

lemma afterRefresh_clientToken:
  "shd (tokenAnswers w) = Inr tr \<Longrightarrow> clientToken (afterRefresh w) = Some (res_accessToken tr)"
  by (simp add: afterRefresh_def setAccessToken_def refreshAccessToken_result)

lemma afterRefresh_config:
  "shd (tokenAnswers w) = Inr tr \<Longrightarrow>
   config (afterRefresh w) =
     (config w)\<lparr>accessToken := Some (res_accessToken tr),
               refreshToken := Some (res_refreshToken tr),
               tokenExpiresAt := Some (now w + res_expiresIn tr * 1000)\<rparr>"
  by (simp add: afterRefresh_def setAccessToken_def refreshAccessToken_result
      refreshAccessToken_config)

lemma afterPageRequest_simps [simp]:
  "pageAnswers (afterPageRequest aft w) = stl (pageAnswers w)"
  "pageRequests (afterPageRequest aft w) =
     pageRequests w @ [(batchSize (config w), aft, clientToken w)]"
  "config (afterPageRequest aft w) = config w"
  "clientToken (afterPageRequest aft w) = clientToken w"
  "tokenAnswers (afterPageRequest aft w) = tokenAnswers w"
  "tokenRequests (afterPageRequest aft w) = tokenRequests w"
  "now (afterPageRequest aft w) = now w"
  by (simp_all add: afterPageRequest_def)

lemma updateEnvFile_returns: "fst (updateEnvFile tks w) = Inr ()"
  by (simp add: updateEnvFile_def split: prod.splits sum.splits)

lemma oauth_updateEnvFile_returns: "fst (oauth_updateEnvFile k tks w) = Inr ()"
  by (simp add: oauth_updateEnvFile_def split: prod.splits sum.splits)

lemma updateEnvFile_envFile:
  "envFile (snd (updateEnvFile tks w)) =
     (case shd (fsFaults w) of
        Some e \<Rightarrow> envFile w
      | None \<Rightarrow>
          (case envFile w of
             None \<Rightarrow> None
           | Some content \<Rightarrow>
               (case shd (stl (fsFaults w)) of
                  Some e \<Rightarrow> Some content
                | None \<Rightarrow> Some (updateTokenValues tks content))))"
  by (simp add: updateEnvFile_def updateEnvFile_try_def readFile_env_def writeFile_env_def Let_def
      split: prod.splits sum.splits option.splits)

lemma updateEnvFile_config [simp]: "config (snd (updateEnvFile tks w)) = config w"
  by (simp add: updateEnvFile_def updateEnvFile_try_def readFile_env_def writeFile_env_def Let_def
      split: prod.splits sum.splits option.splits)

lemma refreshAccessToken_envFile:
  "shd (tokenAnswers w) = Inr tr \<Longrightarrow>
   envFile (snd (refreshAccessToken w)) =
     envFile (snd (updateEnvFile
       \<lparr>tok_accessToken = res_accessToken tr, tok_refreshToken = res_refreshToken tr,
        tok_expiresAt = now w + res_expiresIn tr * 1000\<rparr> w))"
  by (simp add: refreshAccessToken_def tokensApi_create_def updateEnvFile_def
      updateEnvFile_try_def readFile_env_def writeFile_env_def Let_def
      split: sum.splits prod.splits option.splits)

subsection \<open>The loop of the deal fetcher\<close>

lemma getAllDeals_loop_page:
  assumes "shd (pageAnswers w) = Inr p"
  shows "getAllDeals_loop (Suc fuel) deals aft w =
     (case nextOf p of
        None \<Rightarrow> Some (Inr (deals @ page_results p), afterPageRequest aft w)
      | Some n \<Rightarrow>
          getAllDeals_loop fuel (deals @ page_results p) (after n) (afterPageRequest aft w))"
  using assms
  by (simp add: getAllDeals_loop.simps getPage_def afterPageRequest_def nextOf_def Let_def
      split: option.splits)

lemma getAllDeals_loop_expired:
  assumes "shd (pageAnswers w) = Inl e"
    and "includes_str (message e) ''401''"
    and "truthy (refreshToken (config w))"
  shows "getAllDeals_loop (Suc fuel) deals aft w =
     (case shd (tokenAnswers w) of
        Inl refreshError \<Rightarrow> Some (Inl refreshError, afterRefresh (afterPageRequest aft w))
      | Inr tr \<Rightarrow> getAllDeals_loop fuel deals aft (afterRefresh (afterPageRequest aft w)))"
proof -
  let ?w1 = "afterPageRequest aft w"
  have gp: "getPage (batchSize (config w)) aft w = (Inl e, ?w1)"
    using assms(1) by (simp add: getPage_def afterPageRequest_def)
  have ae: "authExpired e ?w1"
    using assms(2,3) by (simp add: authExpired_def)
  show ?thesis
  proof (cases "shd (tokenAnswers w)")
    case (Inl refreshError)
    then have "fst (refreshAccessToken ?w1) = Inl refreshError"
      by (simp add: refreshAccessToken_result)
    then show ?thesis
      using gp ae Inl
      by (cases "refreshAccessToken ?w1") (simp add: getAllDeals_loop.simps afterRefresh_def)
  next
    case (Inr tr)
    then have "fst (refreshAccessToken ?w1) = Inr (res_accessToken tr)"
      by (simp add: refreshAccessToken_result)
    then show ?thesis
      using gp ae Inr
      by (cases "refreshAccessToken ?w1") (simp add: getAllDeals_loop.simps afterRefresh_def)
  qed
qed

lemma getAllDeals_loop_other:
  assumes "shd (pageAnswers w) = Inl e"
    and "\<not> (includes_str (message e) ''401'' \<and> truthy (refreshToken (config w)))"
  shows "getAllDeals_loop (Suc fuel) deals aft w = Some (Inl e, afterPageRequest aft w)"
  using assms
  by (auto simp: getAllDeals_loop.simps getPage_def afterPageRequest_def authExpired_def)

lemma cursorsFrom_append:
  "cursorsFrom aft (ps @ qs) = cursorsFrom aft ps @ cursorsFrom (foldl cursorAfter aft ps) qs"
  by (induction ps arbitrary: aft) simp_all

lemma length_cursorsFrom [simp]: "length (cursorsFrom aft ps) = length ps"
  by (induction ps arbitrary: aft) simp_all

lemma cursorAfter_Some: "nextOf p = Some n \<Longrightarrow> cursorAfter aft p = after n"
  by (simp add: cursorAfter_def)

lemma getAllDeals_loop_prefix:
  assumes "\<forall>p \<in> set pre. nextOf p \<noteq> None"
    and "pageAnswers w = map Inr pre @- rest"
  shows "getAllDeals_loop (length pre + fuel) deals aft w =
     getAllDeals_loop fuel (deals @ concat (map page_results pre)) (foldl cursorAfter aft pre)
       (w\<lparr>pageAnswers := rest,
          pageRequests := pageRequests w @
            map (\<lambda>c. (batchSize (config w), c, clientToken w)) (cursorsFrom aft pre)\<rparr>)"
  using assms
proof (induction pre arbitrary: deals aft w)
  case Nil
  then have "rest = pageAnswers w" by simp
  then show ?case by simp
next
  case (Cons p ps)
  from Cons.prems(1) obtain n where n: "nextOf p = Some n" by auto
  have hd: "shd (pageAnswers w) = Inr p"
    using Cons.prems(2) by simp
  let ?w1 = "afterPageRequest aft w"
  have tl: "pageAnswers ?w1 = map Inr ps @- rest"
    using Cons.prems(2) by simp
  have all: "\<forall>p \<in> set ps. nextOf p \<noteq> None"
    using Cons.prems(1) by simp
  have "getAllDeals_loop (length (p # ps) + fuel) deals aft w =
        getAllDeals_loop (length ps + fuel) (deals @ page_results p) (after n) ?w1"
    using getAllDeals_loop_page[OF hd, of "length ps + fuel" deals aft] n by simp
  also have "\<dots> = getAllDeals_loop fuel ((deals @ page_results p) @ concat (map page_results ps))
       (foldl cursorAfter (after n) ps)
       (?w1\<lparr>pageAnswers := rest,
          pageRequests := pageRequests ?w1 @
            map (\<lambda>c. (batchSize (config ?w1), c, clientToken ?w1)) (cursorsFrom (after n) ps)\<rparr>)"
    by (rule Cons.IH[OF all tl])
  finally show ?case
    by (simp add: cursorAfter_Some[OF n] afterPageRequest_def)
qed

lemma getAllDeals_loop_snoc:
  assumes "\<forall>q \<in> set pre. nextOf q \<noteq> None"
    and "nextOf p = None"
    and "pageAnswers w = map Inr (pre @ [p]) @- rest"
    and "length pre < fuel"
  shows "getAllDeals_loop fuel deals aft w =
     Some (Inr (deals @ concat (map page_results (pre @ [p]))),
       w\<lparr>pageAnswers := rest,
         pageRequests := pageRequests w @
           map (\<lambda>c. (batchSize (config w), c, clientToken w)) (cursorsFrom aft (pre @ [p]))\<rparr>)"
proof -
  have ans: "pageAnswers w = map Inr pre @- (Inr p ## rest)"
    using assms(3) by simp
  define k where "k = fuel - Suc (length pre)"
  have k: "fuel = length pre + Suc k"
    using assms(4) by (simp add: k_def)
  let ?w1 = "w\<lparr>pageAnswers := Inr p ## rest,
          pageRequests := pageRequests w @
            map (\<lambda>c. (batchSize (config w), c, clientToken w)) (cursorsFrom aft pre)\<rparr>"
  have "getAllDeals_loop fuel deals aft w =
      getAllDeals_loop (Suc k) (deals @ concat (map page_results pre)) (foldl cursorAfter aft pre) ?w1"
    unfolding k by (rule getAllDeals_loop_prefix[OF assms(1) ans])
  also have "\<dots> = Some (Inr ((deals @ concat (map page_results pre)) @ page_results p),
      afterPageRequest (foldl cursorAfter aft pre) ?w1)"
    using getAllDeals_loop_page[of ?w1 p k] assms(2) by simp
  also have "afterPageRequest (foldl cursorAfter aft pre) ?w1 =
      w\<lparr>pageAnswers := rest,
         pageRequests := pageRequests w @
           map (\<lambda>c. (batchSize (config w), c, clientToken w)) (cursorsFrom aft (pre @ [p]))\<rparr>"
    by (simp add: afterPageRequest_def cursorsFrom_append)
  finally show ?thesis by simp
qed

lemma getAllDeals_loop_pages:
  assumes "pagination pages"
    and "pageAnswers w = map Inr pages @- rest"
    and "length pages \<le> fuel"
  shows "getAllDeals_loop fuel deals aft w =
     Some (Inr (deals @ concat (map page_results pages)),
       w\<lparr>pageAnswers := rest,
         pageRequests := pageRequests w @
           map (\<lambda>c. (batchSize (config w), c, clientToken w)) (cursorsFrom aft pages)\<rparr>)"
proof -
  from assms(1) have ne: "pages \<noteq> []"
    and cont: "\<forall>p \<in> set (butlast pages). nextOf p \<noteq> None"
    and fin: "nextOf (last pages) = None"
    by (simp_all add: pagination_def)
  obtain pre p where pages: "pages = pre @ [p]"
    using ne by (metis append_butlast_last_id)
  have cont': "\<forall>q \<in> set pre. nextOf q \<noteq> None" and fin': "nextOf p = None"
    using cont fin by (simp_all add: pages)
  have len: "length pre < fuel"
    using assms(3) by (simp add: pages)
  show ?thesis
    using getAllDeals_loop_snoc[OF cont' fin' assms(2)[unfolded pages] len]
    by (simp only: pages)
qed

lemma getAllDeals_loop_running:
  assumes "pagination pages"
    and "pageAnswers w = map Inr pages @- rest"
    and "k < length pages"
  shows "getAllDeals_loop k deals aft w = None"
proof -
  from assms(1) have cont: "\<forall>p \<in> set (butlast pages). nextOf p \<noteq> None"
    by (simp add: pagination_def)
  have "take k pages = take k (butlast pages)"
    using assms(3) by (simp add: take_butlast)
  then have "set (take k pages) \<subseteq> set (butlast pages)"
    by (simp add: set_take_subset)
  with cont have c: "\<forall>p \<in> set (take k pages). nextOf p \<noteq> None"
    by blast
  have "map Inr pages @- rest = map Inr (take k pages) @- (map Inr (drop k pages) @- rest)"
    by (simp flip: shift_append map_append)
  with assms(2) have a: "pageAnswers w = map Inr (take k pages) @- (map Inr (drop k pages) @- rest)"
    by simp
  have l: "length (take k pages) = k"
    using assms(3) by simp
  show ?thesis
    using getAllDeals_loop_prefix[OF c a, of 0 deals aft] assms(3)
    by (simp add: min_def getAllDeals_loop.simps)
qed

subsection \<open>The resolver and its retries\<close>

lemma afterAssocRequest_simps [simp]:
  "assocAnswers (afterAssocRequest d t w) = stl (assocAnswers w)"
  "assocRequests (afterAssocRequest d t w) = assocRequests w @ [(d, t, clientToken w)]"
  "config (afterAssocRequest d t w) = config w"
  "clientToken (afterAssocRequest d t w) = clientToken w"
  "tokenAnswers (afterAssocRequest d t w) = tokenAnswers w"
  "tokenRequests (afterAssocRequest d t w) = tokenRequests w"
  "batchAnswers (afterAssocRequest d t w) = batchAnswers w"
  "batchRequests (afterAssocRequest d t w) = batchRequests w"
  "now (afterAssocRequest d t w) = now w"
  by (simp_all add: afterAssocRequest_def)

lemma batch_loop_unrecognized:
  assumes "batchApiOf objectType = None"
  shows "batch_loop objectType assocs objectIds i fullObjects w =
     (if i < length objectIds then (Inr (RawAssociations assocs), w)
      else (Inr (Resolved assocs fullObjects), w))"
  by (subst batch_loop.simps) (simp add: assms)

lemma batch_loop_frame [simp]:
  "assocAnswers (snd (batch_loop t assocs ids i objs w)) = assocAnswers w"
  "assocRequests (snd (batch_loop t assocs ids i objs w)) = assocRequests w"
  "tokenAnswers (snd (batch_loop t assocs ids i objs w)) = tokenAnswers w"
  "tokenRequests (snd (batch_loop t assocs ids i objs w)) = tokenRequests w"
  "config (snd (batch_loop t assocs ids i objs w)) = config w"
  "clientToken (snd (batch_loop t assocs ids i objs w)) = clientToken w"
  "now (snd (batch_loop t assocs ids i objs w)) = now w"
  by (cases "batchApiOf t"; simp add: batch_loop_unrecognized batch_loop_recognized)+

lemma batch_loop_result:
  "\<exists>r. fst (batch_loop t assocs ids i objs w) = Inr r \<and>
     (case r of Resolved a b \<Rightarrow> a = assocs
      | RawAssociations a \<Rightarrow> a = assocs \<and> batchApiOf t = None \<and> i < length ids)"
  by (cases "batchApiOf t") (simp_all add: batch_loop_unrecognized batch_loop_recognized)

lemma getAssociatedObjects_try_failed:
  "shd (assocAnswers w) = Inl e \<Longrightarrow>
   getAssociatedObjects_try d t w = (Inl e, afterAssocRequest d t w)"
  by (simp add: getAssociatedObjects_try_def associationsApi_getAll_def afterAssocRequest_def)

lemma getAssociatedObjects_try_listed:
  assumes "shd (assocAnswers w) = Inr listing"
  shows "\<exists>r w1. getAssociatedObjects_try d t w = (Inr r, w1)
     \<and> (case r of Resolved a b \<Rightarrow> True
         | RawAssociations a \<Rightarrow> a \<noteq> [] \<and> batchApiOf t = None)
     \<and> assocAnswers w1 = stl (assocAnswers w)
     \<and> tokenAnswers w1 = tokenAnswers w
     \<and> tokenRequests w1 = tokenRequests w"
proof (cases "assoc_results listing = []")
  case True
  then show ?thesis
    using assms
    by (simp add: getAssociatedObjects_try_def associationsApi_getAll_def)
next
  case False
  let ?w1 = "afterAssocRequest d t w"
  have eq: "getAssociatedObjects_try d t w =
      batch_loop t (assoc_results listing) (map toObjectId (assoc_results listing)) 0 [] ?w1"
    using assms False
    by (simp add: getAssociatedObjects_try_def associationsApi_getAll_def afterAssocRequest_def)
  obtain r where r: "fst (batch_loop t (assoc_results listing)
        (map toObjectId (assoc_results listing)) 0 [] ?w1) = Inr r"
    and rr: "(case r of Resolved a b \<Rightarrow> a = assoc_results listing
      | RawAssociations a \<Rightarrow> a = assoc_results listing \<and> batchApiOf t = None \<and>
          0 < length (map toObjectId (assoc_results listing)))"
    using batch_loop_result[of t "assoc_results listing" "map toObjectId (assoc_results listing)" 0 "[]" ?w1]
    by blast
  show ?thesis
    apply (rule exI[of _ r])
    apply (rule exI[of _ "snd (getAssociatedObjects_try d t w)"])
    using r rr False
    apply (simp add: eq prod_eq_iff split: resolved.splits)
    done
qed

lemma getAssociatedObjects_listed:
  assumes "shd (assocAnswers w) = Inr listing"
  shows "getAssociatedObjects (Suc fuel) d t w = Some (getAssociatedObjects_try d t w)"
  using getAssociatedObjects_try_listed[OF assms, of d t]
  by (auto simp: getAssociatedObjects.simps)

lemma getAssociatedObjects_other:
  assumes "shd (assocAnswers w) = Inl e"
    and "\<not> (includes_str (message e) ''401'' \<and> truthy (refreshToken (config w)))"
  shows "getAssociatedObjects (Suc fuel) d t w =
     Some (Inr (Resolved [] []), afterAssocRequest d t w)"
  using assms
  by (auto simp: getAssociatedObjects.simps getAssociatedObjects_try_failed authExpired_def)

lemma getAssociatedObjects_expired:
  assumes "shd (assocAnswers w) = Inl e"
    and "includes_str (message e) ''401''"
    and "truthy (refreshToken (config w))"
  shows "getAssociatedObjects (Suc fuel) d t w =
     (case shd (tokenAnswers w) of
        Inl refreshError \<Rightarrow> Some (Inl refreshError, afterRefresh (afterAssocRequest d t w))
      | Inr tr \<Rightarrow> getAssociatedObjects fuel d t (afterRefresh (afterAssocRequest d t w)))"
proof -
  let ?w1 = "afterAssocRequest d t w"
  have ae: "authExpired e ?w1"
    using assms(2,3) by (simp add: authExpired_def)
  show ?thesis
  proof (cases "shd (tokenAnswers w)")
    case (Inl refreshError)
    then have "fst (refreshAccessToken ?w1) = Inl refreshError"
      by (simp add: refreshAccessToken_result)
    then show ?thesis
      using ae Inl assms(1)
      by (cases "refreshAccessToken ?w1")
        (simp add: getAssociatedObjects.simps getAssociatedObjects_try_failed afterRefresh_def)
  next
    case (Inr tr)
    then have "fst (refreshAccessToken ?w1) = Inr (res_accessToken tr)"
      by (simp add: refreshAccessToken_result)
    then show ?thesis
      using ae Inr assms(1)
      by (cases "refreshAccessToken ?w1")
        (simp add: getAssociatedObjects.simps getAssociatedObjects_try_failed afterRefresh_def)
  qed
qed

lemma quiet_stl: "quiet n s \<Longrightarrow> quiet n (stl s)"
  unfolding quiet_def
proof (intro allI impI)
  fix j
  assume q: "\<forall>j\<ge>n. \<not> expiry (s !! j)" and "n \<le> j"
  then have "n \<le> Suc j" by simp
  with q have "\<not> expiry (s !! Suc j)" by blast
  then show "\<not> expiry (stl s !! j)" by simp
qed

lemma quiet_sdrop: "quiet n s \<Longrightarrow> quiet n (sdrop m s)"
  by (induction m arbitrary: s) (simp_all add: quiet_stl)

lemma quiet_expiry:
  assumes "quiet n s" and "expiry (shd s)"
  shows "0 < n \<and> quiet (n - 1) (stl s)"
proof
  show n: "0 < n"
  proof (rule ccontr)
    assume "\<not> 0 < n"
    then have "n \<le> 0" by simp
    with assms(1) have "\<not> expiry (s !! 0)" unfolding quiet_def by blast
    with assms(2) show False by simp
  qed
  show "quiet (n - 1) (stl s)"
    unfolding quiet_def
  proof (intro allI impI)
    fix j
    assume "n - 1 \<le> j"
    with n have "n \<le> Suc j" by simp
    with assms(1) have "\<not> expiry (s !! Suc j)" unfolding quiet_def by blast
    then show "\<not> expiry (stl s !! j)" by simp
  qed
qed

lemma quiet_mono: "quiet m s \<Longrightarrow> m \<le> n \<Longrightarrow> quiet n s"
  by (auto simp: quiet_def)

lemma getAssociatedObjects_shape:
  "getAssociatedObjects fuel d t w = Some (r, w') \<Longrightarrow>
     (\<exists>m. assocAnswers w' = sdrop m (assocAnswers w)) \<and>
     (case r of
        Inr (Resolved a b) \<Rightarrow> True
      | Inr (RawAssociations a) \<Rightarrow> a \<noteq> [] \<and> batchApiOf t = None
      | Inl e \<Rightarrow> Inl e \<in> sset (tokenAnswers w) \<and>
          length (tokenRequests w) < length (tokenRequests w'))"
proof (induction fuel arbitrary: w)
  case 0
  then show ?case by (simp add: getAssociatedObjects.simps)
next
  case (Suc fuel)
  show ?case
  proof (cases "shd (assocAnswers w)")
    case (Inr listing)
    obtain r1 w1 where t: "getAssociatedObjects_try d t w = (Inr r1, w1)"
      and sh: "(case r1 of Resolved a b \<Rightarrow> True
         | RawAssociations a \<Rightarrow> a \<noteq> [] \<and> batchApiOf t = None)"
      and aa: "assocAnswers w1 = stl (assocAnswers w)"
      using getAssociatedObjects_try_listed[OF Inr, of d t] by blast
    have "getAssociatedObjects (Suc fuel) d t w = Some (Inr r1, w1)"
      by (simp add: getAssociatedObjects_listed[OF Inr] t)
    with Suc.prems have "r = Inr r1" "w' = w1" by simp_all
    moreover have "\<exists>m. assocAnswers w1 = sdrop m (assocAnswers w)"
      by (rule exI[of _ "Suc 0"]) (simp add: aa)
    ultimately show ?thesis
      using sh by (simp split: resolved.splits)
  next
    case (Inl e)
    show ?thesis
    proof (cases "includes_str (message e) ''401'' \<and> truthy (refreshToken (config w))")
      case False
      have "\<exists>m. assocAnswers (afterAssocRequest d t w) = sdrop m (assocAnswers w)"
        by (rule exI[of _ "Suc 0"]) simp
      then show ?thesis
        using Suc.prems getAssociatedObjects_other[OF Inl False, of fuel d t]
        by auto
    next
      case True
      let ?w2 = "afterRefresh (afterAssocRequest d t w)"
      have a2: "\<exists>m. assocAnswers ?w2 = sdrop m (assocAnswers w)"
        by (rule exI[of _ "Suc 0"]) simp
      show ?thesis
      proof (cases "shd (tokenAnswers w)")
        case (Inl refreshError)
        have "getAssociatedObjects (Suc fuel) d t w = Some (Inl refreshError, ?w2)"
          using getAssociatedObjects_expired[OF \<open>shd (assocAnswers w) = Inl e\<close>, of fuel d t]
            True Inl by simp
        with Suc.prems have r: "r = Inl refreshError" "w' = ?w2" by simp_all
        have "Inl refreshError \<in> sset (tokenAnswers w)"
          using Inl by (metis shd_sset)
        then show ?thesis
          using r a2 by simp
      next
        case (Inr tr)
        have "getAssociatedObjects (Suc fuel) d t w = getAssociatedObjects fuel d t ?w2"
          using getAssociatedObjects_expired[OF \<open>shd (assocAnswers w) = Inl e\<close>, of fuel d t]
            True Inr by simp
        with Suc.prems have "getAssociatedObjects fuel d t ?w2 = Some (r, w')" by simp
        from Suc.IH[OF this] obtain m where
          m: "assocAnswers w' = sdrop m (assocAnswers ?w2)"
          and sh: "(case r of
              Inr (Resolved a b) \<Rightarrow> True
            | Inr (RawAssociations a) \<Rightarrow> a \<noteq> [] \<and> batchApiOf t = None
            | Inl e \<Rightarrow> Inl e \<in> sset (tokenAnswers ?w2) \<and>
                length (tokenRequests ?w2) < length (tokenRequests w'))"
          by blast
        have "assocAnswers w' = sdrop (Suc m) (assocAnswers w)"
          using m by simp
        then have ex: "\<exists>m. assocAnswers w' = sdrop m (assocAnswers w)" ..
        have sub: "sset (tokenAnswers ?w2) \<subseteq> sset (tokenAnswers w)"
          by (simp add: stl_sset subsetI)
        show ?thesis
          using ex sh sub
          by (auto split: sum.splits resolved.splits)
      qed
    qed
  qed
qed

lemma getAssociatedObjects_returns:
  "quiet n (assocAnswers w) \<Longrightarrow> n < fuel \<Longrightarrow>
   \<exists>r w'. getAssociatedObjects fuel d t w = Some (r, w')"
proof (induction fuel arbitrary: n w)
  case 0
  then show ?case by simp
next
  case (Suc fuel)
  show ?case
  proof (cases "shd (assocAnswers w)")
    case (Inr listing)
    show ?thesis
      by (cases "getAssociatedObjects_try d t w") (simp add: getAssociatedObjects_listed[OF Inr])
  next
    case (Inl e)
    show ?thesis
    proof (cases "includes_str (message e) ''401'' \<and> truthy (refreshToken (config w))")
      case False
      then show ?thesis
        using getAssociatedObjects_other[OF Inl False, of fuel d t] by simp
    next
      case True
      then have "expiry (shd (assocAnswers w))"
        by (simp add: Inl expiry_def)
      with Suc.prems(1) have n: "0 < n" and q: "quiet (n - 1) (stl (assocAnswers w))"
        using quiet_expiry by blast+
      let ?w2 = "afterRefresh (afterAssocRequest d t w)"
      have q2: "quiet (n - 1) (assocAnswers ?w2)"
        using q by simp
      have f: "n - 1 < fuel"
        using n Suc.prems(2) by simp
      show ?thesis
      proof (cases "shd (tokenAnswers w)")
        case (Inl refreshError)
        then show ?thesis
          using getAssociatedObjects_expired[OF \<open>shd (assocAnswers w) = Inl e\<close>, of fuel d t] True
          by simp
      next
        case (Inr tr)
        then have "getAssociatedObjects (Suc fuel) d t w = getAssociatedObjects fuel d t ?w2"
          using getAssociatedObjects_expired[OF \<open>shd (assocAnswers w) = Inl e\<close>, of fuel d t] True
          by simp
        then show ?thesis
          using Suc.IH[OF q2 f] by simp
      qed
    qed
  qed
qed

lemma quiet_0_SCons: "quiet 0 (a ## s) = (\<not> expiry a \<and> quiet 0 s)"
proof
  assume q: "quiet 0 (a ## s)"
  have "\<not> expiry ((a ## s) !! 0)"
    using q unfolding quiet_def by blast
  moreover have "\<not> expiry ((a ## s) !! Suc j)" for j
    using q unfolding quiet_def by blast
  ultimately show "\<not> expiry a \<and> quiet 0 s"
    by (simp add: quiet_def)
next
  assume a: "\<not> expiry a \<and> quiet 0 s"
  show "quiet 0 (a ## s)"
    unfolding quiet_def
  proof (intro allI impI)
    fix j
    show "\<not> expiry ((a ## s) !! j)"
      using a by (cases j) (simp_all add: quiet_def)
  qed
qed

lemma expiry_Inr [simp]: "\<not> expiry (Inr r)"
  by (simp add: expiry_def)

lemma quiet_0_sconst: "quiet 0 (sconst a) = (\<not> expiry a)"
  by (simp add: quiet_def)

lemma expiry_unavailable [simp]: "\<not> expiry (Inl unavailable)"
  by (simp add: expiry_def unavailable_def startsWith_def)

lemma includes_unauthorized: "includes_str (message unauthorized) ''401''"
  by (simp add: unauthorized_def startsWith_def)

lemma includes_unavailable: "\<not> includes_str (message unavailable) ''401''"
  by (simp add: unavailable_def startsWith_def)

lemma quiet_exampleWorld: "quiet 0 (assocAnswers exampleWorld)"
  by (simp add: quiet_def exampleWorld_def)

lemma resolve_refresh_fails:
  "getAssociatedObjects (Suc 0) ''42'' ''notes'' worldRefreshFails =
     Some (Inl unavailable, afterRefresh (afterAssocRequest ''42'' ''notes'' worldRefreshFails))"
proof -
  have a: "shd (assocAnswers worldRefreshFails) = Inl unauthorized"
    by (simp add: worldRefreshFails_def)
  have r: "truthy (refreshToken (config worldRefreshFails))"
    by (simp add: worldRefreshFails_def exampleWorld_def exampleConfig_def truthy_def)
  have t: "shd (tokenAnswers worldRefreshFails) = Inl unavailable"
    by (simp add: worldRefreshFails_def exampleWorld_def)
  show ?thesis
    using getAssociatedObjects_expired[OF a includes_unauthorized r, of 0 "''42''" "''notes''"]
    by (simp add: t)
qed

lemma resolve_contacts:
  "getAssociatedObjects (Suc 0) ''42'' ''contacts'' worldContacts =
     Some (Inr (RawAssociations [exampleAssociation]),
           afterAssocRequest ''42'' ''contacts'' worldContacts)"
proof -
  have a: "shd (assocAnswers worldContacts) = Inr \<lparr>assoc_results = [exampleAssociation]\<rparr>"
    by (simp add: worldContacts_def)
  have b: "batchApiOf ''contacts'' = None"
    by (simp add: batchApiOf_def)
  show ?thesis
    unfolding getAssociatedObjects_listed[OF a]
    using a
    by (simp add: getAssociatedObjects_try_def associationsApi_getAll_def
        batch_loop_unrecognized[OF b] afterAssocRequest_def)
qed

subsection \<open>The aggregator\<close>

lemma activityTypes_loop_returns:
  "quiet n (assocAnswers w) \<Longrightarrow> n < fuel \<Longrightarrow>
   \<exists>r w'. activityTypes_loop fuel d types acts w = Some (r, w')"
proof (induction types arbitrary: acts w)
  case Nil
  then show ?case by simp
next
  case (Cons t types)
  obtain r w1 where r: "getAssociatedObjects fuel d t w = Some (r, w1)"
    using getAssociatedObjects_returns[OF Cons.prems] by blast
  show ?case
  proof (cases r)
    case (Inl e)
    then show ?thesis using r by simp
  next
    case (Inr res)
    from getAssociatedObjects_shape[OF r] obtain m where
      "assocAnswers w1 = sdrop m (assocAnswers w)" by blast
    then have "quiet n (assocAnswers w1)"
      using Cons.prems(1) by (simp add: quiet_sdrop)
    from Cons.IH[OF this Cons.prems(2)] show ?thesis
      using r Inr by simp
  qed
qed

lemma activityTypes_loop_keys:
  "activityTypes_loop fuel d types acts w = Some (Inr acts', w') \<Longrightarrow>
   map fst (activity_types acts') =
     foldl (\<lambda>ks k. if k \<in> set ks then ks else ks @ [k]) (map fst (activity_types acts)) types
   \<and> deal_id acts' = deal_id acts \<and> error_field acts' = error_field acts
   \<and> timestamp acts' = timestamp acts"
proof (induction types arbitrary: acts w)
  case Nil
  then show ?case by simp
next
  case (Cons t types)
  from Cons.prems obtain res w1 where
    r: "getAssociatedObjects fuel d t w = Some (Inr res, w1)"
    and l: "activityTypes_loop fuel d types
        (acts\<lparr>activity_types := AList.update t res (activity_types acts)\<rparr>) w1 = Some (Inr acts', w')"
    by (auto split: option.splits sum.splits)
  from Cons.IH[OF l] show ?case
    by (simp add: update_keys)
qed

lemma getDealActivities_never_raises:
  "getDealActivities fuel d w \<noteq> Some (Inl e, w')"
  by (simp add: getDealActivities_def split: option.splits prod.splits sum.splits)

lemma getDealActivities_keys:
  assumes "getDealActivities fuel d w = Some (Inr acts, w')"
  shows "deal_id acts = d \<and>
     map fst (activity_types acts) = [''notes'', ''calls'', ''meetings'', ''emails'', ''tasks'']"
proof (cases "getDealActivities_try fuel d w")
  case None
  with assms show ?thesis by (simp add: getDealActivities_def)
next
  case (Some p)
  obtain r w1 where p: "p = (r, w1)" by (cases p)
  show ?thesis
  proof (cases r)
    case (Inl e)
    with assms Some p show ?thesis
      by (auto simp: getDealActivities_def emptyResult_def)
  next
    case (Inr a)
    with assms Some p have a: "a = acts" and
      l: "activityTypes_loop fuel d activityTypes
        \<lparr>deal_id = d, timestamp = now w, error_field = None, activity_types = []\<rparr> w =
        Some (Inr acts, w')"
      by (auto simp: getDealActivities_def getDealActivities_try_def)
    from activityTypes_loop_keys[OF l] show ?thesis
      by (simp add: activityTypes_def)
  qed
qed

lemma getDealActivities_returns:
  assumes "quiet n (assocAnswers w)" and "n < fuel"
  shows "\<exists>acts w'. getDealActivities fuel d w = Some (Inr acts, w')"
proof -
  obtain r w1 where "getDealActivities_try fuel d w = Some (r, w1)"
    unfolding getDealActivities_try_def
    using activityTypes_loop_returns[OF assms] by blast
  then show ?thesis
    by (cases r) (simp_all add: getDealActivities_def)
qed

subsection \<open>Repeated expiry\<close>

lemma truthy_afterRefresh:
  "shd (tokenAnswers w) = Inr tr \<Longrightarrow> res_refreshToken tr \<noteq> [] \<Longrightarrow>
   truthy (refreshToken (config (afterRefresh w)))"
  by (simp add: afterRefresh_config truthy_def)

lemma bearers_ne [simp]: "bearers w trs \<noteq> []"
  by (simp add: bearers_def)

lemma refreshTokens_ne [simp]: "refreshTokens w trs \<noteq> []"
  by (simp add: refreshTokens_def)

lemma bearers_Nil [simp]: "bearers w [] = [clientToken w]"
  by (simp add: bearers_def)

lemma refreshTokens_Nil [simp]: "refreshTokens w [] = [refreshToken (config w)]"
  by (simp add: refreshTokens_def)

lemma bearers_Cons:
  "clientToken v = Some (res_accessToken tr) \<Longrightarrow> bearers w (tr # trs) = clientToken w # bearers v trs"
  by (simp add: bearers_def)

lemma refreshTokens_Cons:
  "refreshToken (config v) = Some (res_refreshToken tr) \<Longrightarrow>
   refreshTokens w (tr # trs) = refreshToken (config w) # refreshTokens v trs"
  by (simp add: refreshTokens_def)

lemma bearers_cong: "clientToken v = clientToken w \<Longrightarrow> bearers v trs = bearers w trs"
  by (simp add: bearers_def)

lemma refreshTokens_cong: "config v = config w \<Longrightarrow> refreshTokens v trs = refreshTokens w trs"
  by (simp add: refreshTokens_def)

lemma retries_tokens:
  assumes frame: "\<And>v. config (req v) = config v" "\<And>v. clientToken (req v) = clientToken v"
      "\<And>v. tokenAnswers (req v) = tokenAnswers v" "\<And>v. tokenRequests (req v) = tokenRequests v"
    and "tokenAnswers w = map Inr trs @- trest"
  shows "tokenAnswers (retries req (length trs) w) = trest
     \<and> tokenRequests (retries req (length trs) w) =
         tokenRequests w @
         map (\<lambda>r. (clientId (config w), clientSecret (config w), r)) (butlast (refreshTokens w trs))
     \<and> clientToken (retries req (length trs) w) = last (bearers w trs)
     \<and> refreshToken (config (retries req (length trs) w)) = last (refreshTokens w trs)
     \<and> batchSize (config (retries req (length trs) w)) = batchSize (config w)
     \<and> clientId (config (retries req (length trs) w)) = clientId (config w)
     \<and> clientSecret (config (retries req (length trs) w)) = clientSecret (config w)"
  using assms(5)
proof (induction trs arbitrary: w)
  case Nil
  then show ?case by simp
next
  case (Cons tr trs)
  let ?w2 = "afterRefresh (req w)"
  have tk: "shd (tokenAnswers (req w)) = Inr tr"
    using Cons.prems by (simp add: frame)
  have c2: "config ?w2 = (config w)\<lparr>accessToken := Some (res_accessToken tr),
               refreshToken := Some (res_refreshToken tr),
               tokenExpiresAt := Some (now (req w) + res_expiresIn tr * 1000)\<rparr>"
    using afterRefresh_config[OF tk] by (simp add: frame)
  have ct2: "clientToken ?w2 = Some (res_accessToken tr)"
    by (rule afterRefresh_clientToken[OF tk])
  have ta2: "tokenAnswers ?w2 = map Inr trs @- trest"
    using Cons.prems by (simp add: frame)
  have tr2: "tokenRequests ?w2 =
      tokenRequests w @ [(clientId (config w), clientSecret (config w), refreshToken (config w))]"
    by (simp add: frame)
  have b: "bearers w (tr # trs) = clientToken w # bearers ?w2 trs"
    by (rule bearers_Cons[OF ct2])
  have r: "refreshTokens w (tr # trs) = refreshToken (config w) # refreshTokens ?w2 trs"
    by (rule refreshTokens_Cons) (simp add: c2)
  have ids: "clientId (config ?w2) = clientId (config w)"
    "clientSecret (config ?w2) = clientSecret (config w)"
    "batchSize (config ?w2) = batchSize (config w)"
    by (simp_all add: c2)
  from Cons.IH[OF ta2] show ?case
    by (simp add: b r tr2 ids frame)
qed

lemma retries_truthy:
  assumes frame: "\<And>v. config (req v) = config v" "\<And>v. tokenAnswers (req v) = tokenAnswers v"
    and "truthy (refreshToken (config w))"
    and "\<forall>tr \<in> set trs. res_refreshToken tr \<noteq> []"
    and "tokenAnswers w = map Inr trs @- trest"
  shows "truthy (refreshToken (config (retries req (length trs) w)))"
  using assms(3-)
proof (induction trs arbitrary: w)
  case Nil
  then show ?case by simp
next
  case (Cons tr trs)
  let ?w2 = "afterRefresh (req w)"
  have tk: "shd (tokenAnswers (req w)) = Inr tr"
    using Cons.prems by (simp add: frame)
  have t2: "truthy (refreshToken (config ?w2))"
    using Cons.prems(2) by (intro truthy_afterRefresh[OF tk]) simp
  have ta2: "tokenAnswers ?w2 = map Inr trs @- trest"
    using Cons.prems by (simp add: frame)
  have a2: "\<forall>tr \<in> set trs. res_refreshToken tr \<noteq> []"
    using Cons.prems(2) by simp
  from Cons.IH[OF t2 a2 ta2] show ?case by simp
qed

lemma retries_pages:
  assumes "pageAnswers w = replicate (length trs) a @- rest"
    and "tokenAnswers w = map Inr trs @- trest"
  shows "pageAnswers (retries (afterPageRequest aft) (length trs) w) = rest
     \<and> pageRequests (retries (afterPageRequest aft) (length trs) w) =
         pageRequests w @ map (\<lambda>b. (batchSize (config w), aft, b)) (butlast (bearers w trs))"
  using assms
proof (induction trs arbitrary: w)
  case Nil
  then show ?case by simp
next
  case (Cons tr trs)
  let ?w2 = "afterRefresh (afterPageRequest aft w)"
  have tk: "shd (tokenAnswers (afterPageRequest aft w)) = Inr tr"
    using Cons.prems by simp
  have ct2: "clientToken ?w2 = Some (res_accessToken tr)"
    by (rule afterRefresh_clientToken[OF tk])
  have pa2: "pageAnswers ?w2 = replicate (length trs) a @- rest"
    using Cons.prems by simp
  have ta2: "tokenAnswers ?w2 = map Inr trs @- trest"
    using Cons.prems by simp
  have b: "bearers w (tr # trs) = clientToken w # bearers ?w2 trs"
    by (rule bearers_Cons[OF ct2])
  from Cons.IH[OF pa2 ta2] show ?case
    by (simp add: b)
qed

lemma retries_assocs:
  assumes "assocAnswers w = replicate (length trs) a @- rest"
    and "tokenAnswers w = map Inr trs @- trest"
  shows "assocAnswers (retries (afterAssocRequest d t) (length trs) w) = rest
     \<and> assocRequests (retries (afterAssocRequest d t) (length trs) w) =
         assocRequests w @ map (\<lambda>b. (d, t, b)) (butlast (bearers w trs))
     \<and> batchAnswers (retries (afterAssocRequest d t) (length trs) w) = batchAnswers w
     \<and> batchRequests (retries (afterAssocRequest d t) (length trs) w) = batchRequests w"
  using assms
proof (induction trs arbitrary: w)
  case Nil
  then show ?case by simp
next
  case (Cons tr trs)
  let ?w2 = "afterRefresh (afterAssocRequest d t w)"
  have tk: "shd (tokenAnswers (afterAssocRequest d t w)) = Inr tr"
    using Cons.prems by simp
  have ct2: "clientToken ?w2 = Some (res_accessToken tr)"
    by (rule afterRefresh_clientToken[OF tk])
  have pa2: "assocAnswers ?w2 = replicate (length trs) a @- rest"
    using Cons.prems by simp
  have ta2: "tokenAnswers ?w2 = map Inr trs @- trest"
    using Cons.prems by simp
  have b: "bearers w (tr # trs) = clientToken w # bearers ?w2 trs"
    by (rule bearers_Cons[OF ct2])
  from Cons.IH[OF pa2 ta2] show ?case
    by (simp add: b)
qed

lemma getAllDeals_loop_expired_run:
  assumes "includes_str (message e) ''401''"
    and "truthy (refreshToken (config w))"
    and "\<forall>tr \<in> set trs. res_refreshToken tr \<noteq> []"
    and "pageAnswers w = replicate (length trs) (Inl e) @- rest"
    and "tokenAnswers w = map Inr trs @- trest"
  shows "getAllDeals_loop (length trs + fuel) deals aft w =
     getAllDeals_loop fuel deals aft (retries (afterPageRequest aft) (length trs) w)"
  using assms(2-)
proof (induction trs arbitrary: w)
  case Nil
  then show ?case by simp
next
  case (Cons tr trs)
  let ?w2 = "afterRefresh (afterPageRequest aft w)"
  have hd: "shd (pageAnswers w) = Inl e" and tk: "shd (tokenAnswers w) = Inr tr"
    using Cons.prems by simp_all
  have step: "getAllDeals_loop (Suc (length trs + fuel)) deals aft w =
      getAllDeals_loop (length trs + fuel) deals aft ?w2"
    using getAllDeals_loop_expired[OF hd assms(1) Cons.prems(1), of "length trs + fuel" deals aft] tk
    by simp
  have t2: "truthy (refreshToken (config ?w2))"
    using tk Cons.prems(2) by (intro truthy_afterRefresh[of _ tr]) simp_all
  have p2: "pageAnswers ?w2 = replicate (length trs) (Inl e) @- rest"
    using Cons.prems(3) by simp
  have k2: "tokenAnswers ?w2 = map Inr trs @- trest"
    using Cons.prems(4) by simp
  have a2: "\<forall>tr \<in> set trs. res_refreshToken tr \<noteq> []"
    using Cons.prems(2) by simp
  from Cons.IH[OF t2 a2 p2 k2] step show ?case by simp
qed

lemma getAssociatedObjects_expired_run:
  assumes "includes_str (message e) ''401''"
    and "truthy (refreshToken (config w))"
    and "\<forall>tr \<in> set trs. res_refreshToken tr \<noteq> []"
    and "assocAnswers w = replicate (length trs) (Inl e) @- rest"
    and "tokenAnswers w = map Inr trs @- trest"
  shows "getAssociatedObjects (length trs + fuel) d t w =
     getAssociatedObjects fuel d t (retries (afterAssocRequest d t) (length trs) w)"
  using assms(2-)
proof (induction trs arbitrary: w)
  case Nil
  then show ?case by simp
next
  case (Cons tr trs)
  let ?w2 = "afterRefresh (afterAssocRequest d t w)"
  have hd: "shd (assocAnswers w) = Inl e" and tk: "shd (tokenAnswers w) = Inr tr"
    using Cons.prems by simp_all
  have step: "getAssociatedObjects (Suc (length trs + fuel)) d t w =
      getAssociatedObjects (length trs + fuel) d t ?w2"
    using getAssociatedObjects_expired[OF hd assms(1) Cons.prems(1), of "length trs + fuel" d t] tk
    by simp
  have t2: "truthy (refreshToken (config ?w2))"
    using tk Cons.prems(2) by (intro truthy_afterRefresh[of _ tr]) simp_all
  have p2: "assocAnswers ?w2 = replicate (length trs) (Inl e) @- rest"
    using Cons.prems(3) by simp
  have k2: "tokenAnswers ?w2 = map Inr trs @- trest"
    using Cons.prems(4) by simp
  have a2: "\<forall>tr \<in> set trs. res_refreshToken tr \<noteq> []"
    using Cons.prems(2) by simp
  from Cons.IH[OF t2 a2 p2 k2] step show ?case by simp
qed

subsection \<open>The write log of the export\<close>

lemma withWrites_simps [simp]: "withWrites x (r, w) = (r, w\<lparr>outWrites := x\<rparr>)"
  by (simp add: withWrites_def)

lemma refreshAccessToken_writes:
  "refreshAccessToken (w\<lparr>outWrites := x\<rparr>) = withWrites x (refreshAccessToken w)"
  by (simp add: refreshAccessToken_def tokensApi_create_def updateEnvFile_def
      updateEnvFile_try_def readFile_env_def writeFile_env_def Let_def withWrites_def
      split: sum.splits prod.splits option.splits)

lemma refreshAccessToken_faults:
  "calm w \<Longrightarrow> calm (snd (refreshAccessToken w))"
  by (simp add: calm_def refreshAccessToken_def tokensApi_create_def updateEnvFile_def
      updateEnvFile_try_def readFile_env_def writeFile_env_def Let_def
      split: sum.splits prod.splits option.splits)

lemma afterRefresh_writes:
  "afterRefresh (w\<lparr>outWrites := x\<rparr>) = (afterRefresh w)\<lparr>outWrites := x\<rparr>"
  by (simp add: afterRefresh_def refreshAccessToken_writes withWrites_def setAccessToken_def
      split: sum.splits)

lemma setAccessToken_faults [simp]: "calm (setAccessToken tok w) = calm w"
  by (simp add: calm_def setAccessToken_def)

lemma afterRefresh_faults:
  "calm w \<Longrightarrow> calm (afterRefresh w)"
  by (simp add: afterRefresh_def refreshAccessToken_faults split: sum.splits)

lemma batch_loop_writes:
  "batch_loop t assocs ids i objs (w\<lparr>outWrites := x\<rparr>) =
     withWrites x (batch_loop t assocs ids i objs w)"
  by (cases "batchApiOf t") (simp_all add: batch_loop_unrecognized batch_loop_recognized)

lemma batch_loop_faults [simp]:
  "calm (snd (batch_loop t assocs ids i objs w)) = calm w"
  by (cases "batchApiOf t") (simp_all add: calm_def batch_loop_unrecognized batch_loop_recognized)

lemma getAssociatedObjects_try_eq:
  "getAssociatedObjects_try d t w =
     (case shd (assocAnswers w) of
        Inl e \<Rightarrow> (Inl e, afterAssocRequest d t w)
      | Inr listing \<Rightarrow>
          (if assoc_results listing \<noteq> [] then
             batch_loop t (assoc_results listing) (map toObjectId (assoc_results listing)) 0 []
               (afterAssocRequest d t w)
           else (Inr (Resolved [] []), afterAssocRequest d t w)))"
  by (simp add: getAssociatedObjects_try_def associationsApi_getAll_def afterAssocRequest_def
      split: sum.splits)

lemma afterAssocRequest_writes:
  "afterAssocRequest d t (w\<lparr>outWrites := x\<rparr>) = (afterAssocRequest d t w)\<lparr>outWrites := x\<rparr>"
  by (simp add: afterAssocRequest_def)

lemma getAssociatedObjects_try_writes:
  "getAssociatedObjects_try d t (w\<lparr>outWrites := x\<rparr>) =
     withWrites x (getAssociatedObjects_try d t w)"
  by (simp add: getAssociatedObjects_try_eq afterAssocRequest_writes batch_loop_writes
      split: sum.splits)

lemma afterAssocRequest_faults [simp]: "calm (afterAssocRequest d t w) = calm w"
  by (simp add: calm_def afterAssocRequest_def)

lemma getAssociatedObjects_try_faults [simp]:
  "calm (snd (getAssociatedObjects_try d t w)) = calm w"
  by (simp add: getAssociatedObjects_try_eq split: sum.splits)

lemma authExpired_writes [simp]: "authExpired e (w\<lparr>outWrites := x\<rparr>) = authExpired e w"
  by (simp add: authExpired_def)

lemma setAccessToken_writes:
  "setAccessToken tok (w\<lparr>outWrites := x\<rparr>) = (setAccessToken tok w)\<lparr>outWrites := x\<rparr>"
  by (simp add: setAccessToken_def)

lemma withWritesOpt_simps [simp]:
  "withWritesOpt x None = None"
  "withWritesOpt x (Some (r, w)) = Some (r, w\<lparr>outWrites := x\<rparr>)"
  by (simp_all add: withWritesOpt_def)

lemma getAssociatedObjects_writes:
  "getAssociatedObjects fuel d t (w\<lparr>outWrites := x\<rparr>) =
     withWritesOpt x (getAssociatedObjects fuel d t w)"
proof (induction fuel arbitrary: w)
  case 0
  show ?case by (simp add: getAssociatedObjects.simps)
next
  case (Suc fuel)
  obtain r w1 where t: "getAssociatedObjects_try d t w = (r, w1)"
    by (cases "getAssociatedObjects_try d t w")
  obtain r2 w2 where f: "refreshAccessToken w1 = (r2, w2)"
    by (cases "refreshAccessToken w1")
  show ?case
    by (simp add: getAssociatedObjects.simps getAssociatedObjects_try_writes t
        refreshAccessToken_writes f setAccessToken_writes Suc.IH split: sum.splits)
qed

lemma getAssociatedObjects_faults:
  "getAssociatedObjects fuel d t w = Some (r, w') \<Longrightarrow> calm w \<Longrightarrow> calm w'"
proof (induction fuel arbitrary: w)
  case 0
  then show ?case by (simp add: getAssociatedObjects.simps)
next
  case (Suc fuel)
  obtain r1 w1 where t: "getAssociatedObjects_try d t w = (r1, w1)"
    by (cases "getAssociatedObjects_try d t w")
  then have f1: "calm w1"
    using getAssociatedObjects_try_faults[of d t w] Suc.prems(2) by simp
  obtain r2 w2 where f: "refreshAccessToken w1 = (r2, w2)"
    by (cases "refreshAccessToken w1")
  then have f2: "calm w2"
    using refreshAccessToken_faults[OF f1] by simp
  then have f3: "calm (setAccessToken tok w2)" for tok
    by simp
  show ?case
    using Suc.prems(1) Suc.IH[OF _ f3] f1 f2
    by (auto simp: getAssociatedObjects.simps t f split: sum.splits if_splits)
qed

lemma activityTypes_loop_writes:
  "activityTypes_loop fuel d types acts (w\<lparr>outWrites := x\<rparr>) =
     withWritesOpt x (activityTypes_loop fuel d types acts w)"
proof (induction types arbitrary: acts w)
  case Nil
  show ?case by simp
next
  case (Cons t types)
  show ?case
  proof (cases "getAssociatedObjects fuel d t w")
    case None
    then show ?thesis by (simp add: getAssociatedObjects_writes)
  next
    case (Some p)
    obtain r w1 where p: "p = (r, w1)" by (cases p)
    show ?thesis
      by (cases r) (simp_all add: getAssociatedObjects_writes Some p Cons.IH)
  qed
qed

lemma activityTypes_loop_frame:
  "activityTypes_loop fuel d types acts w = Some (r, w') \<Longrightarrow>
   (calm w \<longrightarrow> calm w') \<and> (\<exists>m. assocAnswers w' = sdrop m (assocAnswers w))"
proof (induction types arbitrary: acts w)
  case Nil
  then have "w' = w" by simp
  moreover have "\<exists>m. assocAnswers w = sdrop m (assocAnswers w)"
    by (rule exI[of _ 0]) simp
  ultimately show ?case by simp
next
  case (Cons t types)
  from Cons.prems obtain r1 w1 where g: "getAssociatedObjects fuel d t w = Some (r1, w1)"
    by (auto split: option.splits)
  from getAssociatedObjects_shape[OF g] obtain m1 where
    m1: "assocAnswers w1 = sdrop m1 (assocAnswers w)" by blast
  have c1: "calm w \<longrightarrow> calm w1"
    using getAssociatedObjects_faults[OF g] by blast
  show ?case
  proof (cases r1)
    case (Inl e)
    with Cons.prems g have "w' = w1" by simp
    then show ?thesis using m1 c1 by blast
  next
    case (Inr res)
    with Cons.prems g have "activityTypes_loop fuel d types
        (acts\<lparr>activity_types := AList.update t res (activity_types acts)\<rparr>) w1 = Some (r, w')"
      by simp
    from Cons.IH[OF this] obtain m2 where
      c2: "calm w1 \<longrightarrow> calm w'" and m2: "assocAnswers w' = sdrop m2 (assocAnswers w1)"
      by blast
    have "assocAnswers w' = sdrop (m1 + m2) (assocAnswers w)"
      using m1 m2 by (simp add: sdrop_add)
    then have "\<exists>m. assocAnswers w' = sdrop m (assocAnswers w)" ..
    then show ?thesis using c1 c2 by blast
  qed
qed

lemma getDealActivities_writes:
  "getDealActivities fuel d (w\<lparr>outWrites := x\<rparr>) = withWritesOpt x (getDealActivities fuel d w)"
proof (cases "getDealActivities_try fuel d w")
  case None
  then show ?thesis
    by (simp add: getDealActivities_def getDealActivities_try_def activityTypes_loop_writes)
next
  case (Some p)
  obtain r w1 where p: "p = (r, w1)" by (cases p)
  show ?thesis
    using Some p
    by (cases r)
      (simp_all add: getDealActivities_def getDealActivities_try_def activityTypes_loop_writes)
qed

lemma getDealActivities_frame:
  assumes "getDealActivities fuel d w = Some (r, w')"
  shows "(calm w \<longrightarrow> calm w') \<and> (\<exists>m. assocAnswers w' = sdrop m (assocAnswers w))
     \<and> outWrites w' = outWrites w"
proof -
  from assms obtain r1 where "getDealActivities_try fuel d w = Some (r1, w')"
    by (auto simp: getDealActivities_def split: option.splits sum.splits)
  then have a: "(calm w \<longrightarrow> calm w') \<and> (\<exists>m. assocAnswers w' = sdrop m (assocAnswers w))"
    unfolding getDealActivities_try_def by (rule activityTypes_loop_frame)
  have "getDealActivities fuel d (w\<lparr>outWrites := outWrites w\<rparr>) =
      withWritesOpt (outWrites w) (getDealActivities fuel d w)"
    by (rule getDealActivities_writes)
  then have "Some (r, w') = Some (r, w'\<lparr>outWrites := outWrites w\<rparr>)"
    using assms by simp
  then have "w' = w'\<lparr>outWrites := outWrites w\<rparr>" by simp
  then have "outWrites w' = outWrites (w'\<lparr>outWrites := outWrites w\<rparr>)" by simp
  then have "outWrites w' = outWrites w" by simp
  with a show ?thesis by simp
qed

lemma aggregates_writes:
  "aggregates fuel ds (w\<lparr>outWrites := x\<rparr>) = aggregates fuel ds w"
proof (induction ds arbitrary: w x)
  case Nil
  show ?case by simp
next
  case (Cons d ds)
  show ?case
  proof (cases "getDealActivities fuel (deal_ident d) w")
    case None
    then show ?thesis by (simp add: aggregates.simps getDealActivities_writes)
  next
    case (Some p)
    obtain r w1 where p: "p = (r, w1)" by (cases p)
    show ?thesis
      by (cases r) (simp_all add: aggregates.simps getDealActivities_writes Some p Cons.IH)
  qed
qed

lemma calm_writes [simp]: "calm (w\<lparr>outWrites := x\<rparr>) = calm w"
  by (simp add: calm_def)

lemma calm_consume: "calm w \<Longrightarrow> w\<lparr>fsFaults := stl (fsFaults w)\<rparr> = w"
  by (simp add: calm_def)

lemma calm_shd: "calm w \<Longrightarrow> shd (fsFaults w) = None"
  by (simp add: calm_def)

lemma saveToFile_calm:
  "calm w \<Longrightarrow>
   saveToFile data filename w = (Inr (), w\<lparr>outWrites := outWrites w @ [(filename, data)]\<rparr>)"
  by (simp add: saveToFile_def calm_consume calm_shd)

lemma ensureDirectoryExists_calm:
  "calm w \<Longrightarrow> ensureDirectoryExists directory w = (Inr (), w)"
  by (simp add: ensureDirectoryExists_def mkdir_def calm_consume calm_shd)

lemma activityWrites_Cons:
  "activityWrites (d # ds) (acts # recs) =
     (if hasActivities acts then [(activityFile (deal_ident d), ActivitiesDoc acts)] else []) @
     activityWrites ds recs"
  by (simp add: activityWrites_def)

lemma deals_loop_writes:
  assumes "n < fuel"
  shows "calm w \<Longrightarrow> quiet n (assocAnswers w) \<Longrightarrow>
     \<exists>w'. deals_loop fuel ds w = Some (Inr (), w')
       \<and> length (aggregates fuel ds w) = length ds
       \<and> outWrites w' = outWrites w @ activityWrites ds (aggregates fuel ds w)"
proof (induction ds arbitrary: w)
  case Nil
  show ?case by (simp add: activityWrites_def)
next
  case (Cons d ds)
  obtain acts w1 where g: "getDealActivities fuel (deal_ident d) w = Some (Inr acts, w1)"
    using getDealActivities_returns[OF Cons.prems(2) assms] by blast
  from getDealActivities_frame[OF g] Cons.prems(1) obtain m where
    c1: "calm w1" and m: "assocAnswers w1 = sdrop m (assocAnswers w)"
    and o1: "outWrites w1 = outWrites w"
    by blast
  have q1: "quiet n (assocAnswers w1)"
    using Cons.prems(2) m by (simp add: quiet_sdrop)
  have agg: "aggregates fuel (d # ds) w = acts # aggregates fuel ds w1"
    by (simp add: aggregates.simps g)
  show ?case
  proof (cases "hasActivities acts")
    case False
    from Cons.IH[OF c1 q1] obtain w' where
      l: "deals_loop fuel ds w1 = Some (Inr (), w')"
      and len: "length (aggregates fuel ds w1) = length ds"
      and o: "outWrites w' = outWrites w1 @ activityWrites ds (aggregates fuel ds w1)"
      by blast
    have "deals_loop fuel (d # ds) w = Some (Inr (), w')"
      using g False l by simp
    moreover have "outWrites w' =
        outWrites w @ activityWrites (d # ds) (aggregates fuel (d # ds) w)"
      using o o1 False by (simp add: agg activityWrites_Cons)
    ultimately show ?thesis
      using len agg by simp
  next
    case True
    let ?f = "(activityFile (deal_ident d), ActivitiesDoc acts)"
    let ?w2 = "w1\<lparr>outWrites := outWrites w1 @ [?f]\<rparr>"
    have sv: "saveToFile (ActivitiesDoc acts) (activityFile (deal_ident d)) w1 = (Inr (), ?w2)"
      by (rule saveToFile_calm[OF c1])
    have c2: "calm ?w2" using c1 by simp
    have q2: "quiet n (assocAnswers ?w2)" using q1 by simp
    from Cons.IH[OF c2 q2] obtain w' where
      l: "deals_loop fuel ds ?w2 = Some (Inr (), w')"
      and len: "length (aggregates fuel ds ?w2) = length ds"
      and o: "outWrites w' = outWrites ?w2 @ activityWrites ds (aggregates fuel ds ?w2)"
      by blast
    have a2: "aggregates fuel ds ?w2 = aggregates fuel ds w1"
      by (rule aggregates_writes)
    have "deals_loop fuel (d # ds) w = Some (Inr (), w')"
      using g True sv l by simp
    moreover have "outWrites w' =
        outWrites w @ activityWrites (d # ds) (aggregates fuel (d # ds) w)"
      using o o1 True by (simp add: agg aggregates_writes activityWrites_Cons)
    ultimately show ?thesis
      using len agg by (simp add: aggregates_writes)
  qed
qed

lemma activityWrites_iff:
  assumes "length recs = length ds" and "i < length ds"
  shows "((activityFile (deal_ident (ds ! i)), ActivitiesDoc (recs ! i)) \<in>
            set (activityWrites ds recs)) = hasActivities (recs ! i)"
proof
  assume "(activityFile (deal_ident (ds ! i)), ActivitiesDoc (recs ! i)) \<in>
      set (activityWrites ds recs)"
  then obtain acts where "hasActivities acts"
    and "ActivitiesDoc acts = ActivitiesDoc (recs ! i)"
    by (auto simp: activityWrites_def)
  then show "hasActivities (recs ! i)" by simp
next
  assume h: "hasActivities (recs ! i)"
  have "(ds ! i, recs ! i) \<in> set (zip ds recs)"
    using assms by (metis in_set_zip fst_conv snd_conv)
  with h have "(ds ! i, recs ! i) \<in> set (filter (\<lambda>(d, acts). hasActivities acts) (zip ds recs))"
    by simp
  then have "(\<lambda>(d, acts). (activityFile (deal_ident d), ActivitiesDoc acts)) (ds ! i, recs ! i) \<in>
      (\<lambda>(d, acts). (activityFile (deal_ident d), ActivitiesDoc acts)) `
        set (filter (\<lambda>(d, acts). hasActivities acts) (zip ds recs))"
    by (rule imageI)
  then show "(activityFile (deal_ident (ds ! i)), ActivitiesDoc (recs ! i)) \<in>
      set (activityWrites ds recs)"
    by (simp add: activityWrites_def)
qed

lemma afterPageRequest_more [simp]:
  "calm (afterPageRequest aft w) = calm w"
  "assocAnswers (afterPageRequest aft w) = assocAnswers w"
  "outWrites (afterPageRequest aft w) = outWrites w"
  by (simp_all add: afterPageRequest_def calm_def)

lemma getAllDeals_loop_frame:
  "getAllDeals_loop fuel deals aft w = Some (r, w') \<Longrightarrow>
   (calm w \<longrightarrow> calm w') \<and> assocAnswers w' = assocAnswers w \<and> outWrites w' = outWrites w"
proof (induction fuel arbitrary: deals aft w)
  case 0
  then show ?case by (simp add: getAllDeals_loop.simps)
next
  case (Suc fuel)
  let ?w1 = "afterPageRequest aft w"
  let ?w2 = "afterRefresh ?w1"
  have f2: "(calm w \<longrightarrow> calm ?w2) \<and> assocAnswers ?w2 = assocAnswers w \<and> outWrites ?w2 = outWrites w"
    using afterRefresh_faults[of ?w1] by simp
  show ?case
  proof (cases "shd (pageAnswers w)")
    case (Inr p)
    show ?thesis
    proof (cases "nextOf p")
      case None
      with Suc.prems getAllDeals_loop_page[OF Inr, of fuel deals aft] have "w' = ?w1" by simp
      then show ?thesis by simp
    next
      case (Some nx)
      with Suc.prems getAllDeals_loop_page[OF Inr, of fuel deals aft]
      have "getAllDeals_loop fuel (deals @ page_results p) (after nx) ?w1 = Some (r, w')" by simp
      from Suc.IH[OF this] show ?thesis by simp
    qed
  next
    case (Inl e)
    show ?thesis
    proof (cases "includes_str (message e) ''401'' \<and> truthy (refreshToken (config w))")
      case False
      with Suc.prems getAllDeals_loop_other[OF Inl, of fuel deals aft] have "w' = ?w1" by simp
      then show ?thesis by simp
    next
      case True
      show ?thesis
      proof (cases "shd (tokenAnswers w)")
        case (Inl e')
        with Suc.prems True
          getAllDeals_loop_expired[OF \<open>shd (pageAnswers w) = Inl e\<close>, of fuel deals aft]
        have "w' = ?w2" by simp
        then show ?thesis using f2 by simp
      next
        case (Inr tr)
        with Suc.prems True
          getAllDeals_loop_expired[OF \<open>shd (pageAnswers w) = Inl e\<close>, of fuel deals aft]
        have "getAllDeals_loop fuel deals aft ?w2 = Some (r, w')" by simp
        from Suc.IH[OF this] show ?thesis using f2 by simp
      qed
    qed
  qed
qed

lemma idle_shd: "idle v \<Longrightarrow> shd (assocAnswers v) = Inl unavailable"
  by (simp add: idle_def)

lemma idle_afterAssocRequest: "idle v \<Longrightarrow> idle (afterAssocRequest d t v)"
  by (simp add: idle_def)

lemma idle_fold: "idle v \<Longrightarrow> idle (foldl (\<lambda>v t. afterAssocRequest d t v) v types)"
  by (induction types arbitrary: v) (simp_all add: idle_afterAssocRequest)

lemma now_fold [simp]: "now (foldl (\<lambda>v t. afterAssocRequest d t v) v types) = now v"
  by (induction types arbitrary: v) simp_all

lemma activityTypes_loop_idle:
  "idle v \<Longrightarrow>
   activityTypes_loop (Suc 0) d types acts v =
     Some (Inr (foldl (\<lambda>a t. a\<lparr>activity_types := AList.update t (Resolved [] []) (activity_types a)\<rparr>)
                 acts types),
           foldl (\<lambda>v t. afterAssocRequest d t v) v types)"
proof (induction types arbitrary: acts v)
  case Nil
  show ?case by simp
next
  case (Cons t types)
  have hd: "shd (assocAnswers v) = Inl unavailable"
    by (rule idle_shd[OF Cons.prems])
  have g: "getAssociatedObjects (Suc 0) d t v =
      Some (Inr (Resolved [] []), afterAssocRequest d t v)"
    using getAssociatedObjects_other[OF hd, of 0 d t] includes_unavailable by simp
  have a: "idle (afterAssocRequest d t v)"
    by (rule idle_afterAssocRequest[OF Cons.prems])
  show ?case
    by (simp add: g Cons.IH[OF a])
qed

lemma chunks_single: "chunks 100 [x] = [[x]]"
  by (simp add: chunks_step)

lemma exportExample_listing:
  "getAllDeals (Suc 0) worldExport =
     Some (Inr [dealC, dealA], afterPageRequest None worldExport)"
proof -
  have "shd (pageAnswers worldExport) = Inr pageCA"
    by (simp add: worldExport_def)
  from getAllDeals_loop_page[OF this, of 0 "[]" None] show ?thesis
    by (simp add: getAllDeals_def nextOf_def pageCA_def)
qed

lemma exportExample_records:
  "aggregates (Suc 0) [dealC, dealA] (afterPageRequest None worldExport) =
     [recordC,
      \<lparr>deal_id = ''A'', timestamp = 1000, error_field = None,
       activity_types =
         [(''notes'', Resolved [] []), (''calls'', Resolved [] []),
          (''meetings'', Resolved [] []), (''emails'', Resolved [] []),
          (''tasks'', Resolved [] [])]\<rparr>]"
proof -
  let ?w1 = "afterPageRequest None worldExport"
  let ?l = "\<lparr>assoc_results = [exampleAssociation]\<rparr>"
  have a: "shd (assocAnswers ?w1) = Inr ?l"
    by (simp add: worldExport_def)
  have ne: "assoc_results ?l \<noteq> []" by simp
  let ?v1 = "?w1\<lparr>assocAnswers := stl (assocAnswers ?w1),
        assocRequests := assocRequests ?w1 @ [(''C'', ''notes'', clientToken ?w1)],
        batchAnswers :=
          sdrop (length (chunks 100 (map toObjectId (assoc_results ?l)))) (batchAnswers ?w1),
        batchRequests := batchRequests ?w1 @
          map (\<lambda>c. (NotesApi, c, clientToken ?w1)) (chunks 100 (map toObjectId (assoc_results ?l)))\<rparr>"
  have nts: "getAssociatedObjects (Suc 0) ''C'' ''notes'' ?w1 =
      Some (Inr (Resolved [exampleAssociation] [note1]), ?v1)"
    using getAssociatedObjects_listing[OF batchApiOf_notes a ne, of 0 "''C''"]
    by (simp add: chunks_single worldExport_def afterPageRequest_def)
  have i1: "idle ?v1"
    by (simp add: idle_def worldExport_def)
  have n1: "now ?w1 = 1000" "now ?v1 = 1000"
    by (simp_all add: worldExport_def exampleWorld_def)
  let ?v5 = "foldl (\<lambda>v t. afterAssocRequest ''C'' t v) ?v1
      [''calls'', ''meetings'', ''emails'', ''tasks'']"
  let ?acts0 = "\<lparr>deal_id = ''C'', timestamp = now ?w1, error_field = None, activity_types = []\<rparr>"
  let ?acts1 = "?acts0\<lparr>activity_types :=
      AList.update ''notes'' (Resolved [exampleAssociation] [note1]) (activity_types ?acts0)\<rparr>"
  have l1: "activityTypes_loop (Suc 0) ''C'' activityTypes ?acts0 ?w1 =
      activityTypes_loop (Suc 0) ''C'' [''calls'', ''meetings'', ''emails'', ''tasks''] ?acts1 ?v1"
    by (simp only: activityTypes_def activityTypes_loop.simps nts option.case prod.case sum.case)
  have l2: "foldl (\<lambda>a t. a\<lparr>activity_types := AList.update t (Resolved [] []) (activity_types a)\<rparr>)
      ?acts1 [''calls'', ''meetings'', ''emails'', ''tasks''] = recordC"
    by (simp add: recordC_def worldExport_def exampleWorld_def)
  have c: "getDealActivities (Suc 0) ''C'' ?w1 = Some (Inr recordC, ?v5)"
    unfolding getDealActivities_def getDealActivities_try_def l1 activityTypes_loop_idle[OF i1] l2
    by (simp only: option.case prod.case sum.case)
  have i5: "idle ?v5"
    by (rule idle_fold[OF i1])
  have n5: "now ?v5 = 1000"
    by (simp add: worldExport_def exampleWorld_def del: foldl_Cons)
  let ?recA = "\<lparr>deal_id = ''A'', timestamp = 1000, error_field = None,
       activity_types =
         [(''notes'', Resolved [] []), (''calls'', Resolved [] []),
          (''meetings'', Resolved [] []), (''emails'', Resolved [] []),
          (''tasks'', Resolved [] [])]\<rparr>"
  have l3: "foldl (\<lambda>a t. a\<lparr>activity_types := AList.update t (Resolved [] []) (activity_types a)\<rparr>)
      \<lparr>deal_id = ''A'', timestamp = now ?v5, error_field = None, activity_types = []\<rparr>
      activityTypes = ?recA"
    unfolding n5 by (simp add: activityTypes_def)
  have d: "getDealActivities (Suc 0) ''A'' ?v5 =
      Some (Inr ?recA, foldl (\<lambda>v t. afterAssocRequest ''A'' t v) ?v5 activityTypes)"
    unfolding getDealActivities_def getDealActivities_try_def activityTypes_loop_idle[OF i5] l3
    by (simp only: option.case prod.case sum.case)
  have ic: "deal_ident dealC = ''C''" and ia: "deal_ident dealA = ''A''"
    by (simp_all add: dealC_def dealA_def)
  show ?thesis
    by (simp only: aggregates.simps ic ia c d option.case prod.case sum.case)
qed

subsection \<open>Rewriting the configuration file\<close>

lemma search_decompose:
  "search lit s = Some (before, rest) \<Longrightarrow> s = before @ lit @ rest"
proof (induction s arbitrary: before)
  case Nil
  then show ?case by (simp split: if_splits)
next
  case (Cons c cs)
  show ?case
  proof (cases "startsWith (c # cs) lit")
    case True
    with Cons.prems have "before = []" and "rest = drop (length lit) (c # cs)" by simp_all
    moreover from True have "take (length lit) (c # cs) = lit" by (simp add: startsWith_def)
    ultimately show ?thesis
      by (metis append_Nil append_take_drop_id)
  next
    case False
    with Cons.prems obtain b where "search lit cs = Some (b, rest)" and "before = c # b"
      by (auto split: option.splits)
    with Cons.IH[of b] show ?thesis by simp
  qed
qed

lemma getSubstitution_plain:
  "CHR ''$'' \<notin> set t \<Longrightarrow> getSubstitution m b a c t = t"
  by (induction m b a c t rule: getSubstitution.induct) auto

text \<open>
  What the replacement keeps: with a replacement text free of dollar signs, the text before
  the leftmost occurrence of the key and the text from the end of that line on.
\<close>

lemma replace_in_place:
  assumes "search key str = Some (before, rest)" and "CHR ''$'' \<notin> set replacement"
  shows "str = before @ key @ takeWhile (\<lambda>c. \<not> lineTerminator c) rest @
                 dropWhile (\<lambda>c. \<not> lineTerminator c) rest"
    and "replace str key replacement =
           before @ replacement @ dropWhile (\<lambda>c. \<not> lineTerminator c) rest"
  using search_decompose[OF assms(1)] assms
  by (simp_all add: replace_def getSubstitution_plain)

lemma updateTokenValues_staging:
  "updateTokenValues tokens1 stagingEnv =
     unlines
       [''STAGING_HUBSPOT_ACCESS_TOKEN=token-1'',
        ''HUBSPOT_ACCESS_TOKEN=token-0'',
        ''HUBSPOT_REFRESH_TOKEN=refresh-1'',
        ''HUBSPOT_TOKEN_EXPIRES_AT=1801000'',
        ''OUTPUT_DIR=./data'']"
proof -
  have n: "numberToString 1801000 = ''1801000''"
    by (simp add: numberToString_def digits.simps digit_def)
  have 1: "replace stagingEnv ''HUBSPOT_ACCESS_TOKEN='' (''HUBSPOT_ACCESS_TOKEN='' @ ''token-1'') =
      unlines
       [''STAGING_HUBSPOT_ACCESS_TOKEN=token-1'',
        ''HUBSPOT_ACCESS_TOKEN=token-0'',
        ''HUBSPOT_REFRESH_TOKEN=refresh-0'',
        ''HUBSPOT_TOKEN_EXPIRES_AT=1000'',
        ''OUTPUT_DIR=./data'']"
    by (simp add: replace_def stagingEnv_def unlines_def startsWith_def lineTerminator_def)
  have 2: "replace (unlines
       [''STAGING_HUBSPOT_ACCESS_TOKEN=token-1'',
        ''HUBSPOT_ACCESS_TOKEN=token-0'',
        ''HUBSPOT_REFRESH_TOKEN=refresh-0'',
        ''HUBSPOT_TOKEN_EXPIRES_AT=1000'',
        ''OUTPUT_DIR=./data'']) ''HUBSPOT_REFRESH_TOKEN='' (''HUBSPOT_REFRESH_TOKEN='' @ ''refresh-1'') =
      unlines
       [''STAGING_HUBSPOT_ACCESS_TOKEN=token-1'',
        ''HUBSPOT_ACCESS_TOKEN=token-0'',
        ''HUBSPOT_REFRESH_TOKEN=refresh-1'',
        ''HUBSPOT_TOKEN_EXPIRES_AT=1000'',
        ''OUTPUT_DIR=./data'']"
    by (simp add: replace_def unlines_def startsWith_def lineTerminator_def)
  have 3: "replace (unlines
       [''STAGING_HUBSPOT_ACCESS_TOKEN=token-1'',
        ''HUBSPOT_ACCESS_TOKEN=token-0'',
        ''HUBSPOT_REFRESH_TOKEN=refresh-1'',
        ''HUBSPOT_TOKEN_EXPIRES_AT=1000'',
        ''OUTPUT_DIR=./data'']) ''HUBSPOT_TOKEN_EXPIRES_AT=''
        (''HUBSPOT_TOKEN_EXPIRES_AT='' @ ''1801000'') =
      unlines
       [''STAGING_HUBSPOT_ACCESS_TOKEN=token-1'',
        ''HUBSPOT_ACCESS_TOKEN=token-0'',
        ''HUBSPOT_REFRESH_TOKEN=refresh-1'',
        ''HUBSPOT_TOKEN_EXPIRES_AT=1801000'',
        ''OUTPUT_DIR=./data'']"
    by (simp add: replace_def unlines_def startsWith_def lineTerminator_def)
  show ?thesis
    unfolding updateTokenValues_def Let_def tokens1_def tokens.simps n 1 2 3 ..
qed

subsection \<open>The resolver by its first listing answer\<close>

lemma getAssociatedObjects_empty:
  assumes "shd (assocAnswers w) = Inr listing" and "assoc_results listing = []"
  shows "getAssociatedObjects (Suc fuel) d t w =
     Some (Inr (Resolved [] []), afterAssocRequest d t w)"
  using assms
  by (simp add: getAssociatedObjects_listed[OF assms(1)] getAssociatedObjects_try_eq)

lemma getAssociatedObjects_raw:
  assumes "shd (assocAnswers w) = Inr listing" and "assoc_results listing \<noteq> []"
    and "batchApiOf t = None"
  shows "getAssociatedObjects (Suc fuel) d t w =
     Some (Inr (RawAssociations (assoc_results listing)), afterAssocRequest d t w)"
  using assms
  by (simp add: getAssociatedObjects_listed[OF assms(1)] getAssociatedObjects_try_eq
      batch_loop_unrecognized)

lemma getAssociatedObjects_answered:
  assumes "shd (assocAnswers w) = Inr listing"
  shows "\<exists>r w'. getAssociatedObjects (Suc fuel) d t w = Some (Inr r, w')
     \<and> (case r of Resolved a b \<Rightarrow> a | RawAssociations a \<Rightarrow> a) = assoc_results listing
     \<and> assocRequests w' = assocRequests w @ [(d, t, clientToken w)]
     \<and> assocAnswers w' = stl (assocAnswers w)
     \<and> tokenRequests w' = tokenRequests w
     \<and> tokenAnswers w' = tokenAnswers w"
proof (cases "assoc_results listing = []")
  case True
  show ?thesis
    unfolding getAssociatedObjects_empty[OF assms True]
    using True by simp
next
  case False
  show ?thesis
  proof (cases "batchApiOf t")
    case None
    show ?thesis
      unfolding getAssociatedObjects_raw[OF assms False None]
      by simp
  next
    case (Some api)
    show ?thesis
      unfolding getAssociatedObjects_listing[OF Some assms False]
      by simp
  qed
qed

subsection \<open>Batched reads of the resolver\<close>

text \<open>
  Claim C3. When the association listing of a recognised engagement type answers with a
  non-empty list, \<^verbatim>\<open>getAssociatedObjects\<close> returns the pair and issues, through the
  batched-read capability of that type, one request per chunk of the target object ids:
  the id lists of the requests are the consecutive chunks of at most 100 ids, none empty,
  their concatenation is the list of all ids, and for 250 ids there are exactly three
  requests, of sizes 100, 100 and 50 in this order.
\<close>

theorem resolve_batches:
  assumes "batchApiOf objectType = Some api"
    and "shd (assocAnswers w) = Inr listing"
    and "assoc_results listing \<noteq> []"
  shows "\<exists>objs w' reqs.
      getAssociatedObjects (Suc fuel) dealId objectType w =
        Some (Inr (Resolved (assoc_results listing) objs), w')
    \<and> batchRequests w' = batchRequests w @ reqs
    \<and> map fst reqs = replicate (length reqs) api
    \<and> map (fst \<circ> snd) reqs = chunks 100 (map toObjectId (assoc_results listing))
    \<and> concat (map (fst \<circ> snd) reqs) = map toObjectId (assoc_results listing)
    \<and> (\<forall>r \<in> set reqs. 0 < length (fst (snd r)) \<and> length (fst (snd r)) \<le> 100)
    \<and> (length (assoc_results listing) = 250 \<longrightarrow>
          map (length \<circ> fst \<circ> snd) reqs = [100, 100, 50])"
proof -
  let ?ids = "map toObjectId (assoc_results listing)"
  let ?reqs = "map (\<lambda>c. (api, c, clientToken w)) (chunks 100 ?ids)"
  have ids: "map (fst \<circ> snd) ?reqs = chunks 100 ?ids"
    by (simp add: comp_def)
  have apis: "map fst ?reqs = replicate (length ?reqs) api"
    by (simp add: comp_def map_replicate_const)
  have cat: "concat (map (fst \<circ> snd) ?reqs) = ?ids"
    unfolding ids by (simp add: concat_chunks)
  have bounds: "\<forall>r \<in> set ?reqs. 0 < length (fst (snd r)) \<and> length (fst (snd r)) \<le> 100"
    using chunks_bounds[of _ 100 ?ids] by auto
  have sizes: "length (assoc_results listing) = 250 \<longrightarrow>
      map (length \<circ> fst \<circ> snd) ?reqs = [100, 100, 50]"
    using chunks_250[of ?ids] by (simp add: comp_def)
  let ?w' = "w\<lparr>assocAnswers := stl (assocAnswers w),
        assocRequests := assocRequests w @ [(dealId, objectType, clientToken w)],
        batchAnswers := sdrop (length (chunks 100 ?ids)) (batchAnswers w),
        batchRequests := batchRequests w @ ?reqs\<rparr>"
  have run: "getAssociatedObjects (Suc fuel) dealId objectType w =
      Some (Inr (Resolved (assoc_results listing)
        (concat (map objectsOf (stake (length (chunks 100 ?ids)) (batchAnswers w))))), ?w')"
    by (rule getAssociatedObjects_listing[OF assms])
  have log: "batchRequests ?w' = batchRequests w @ ?reqs"
    by simp
  show ?thesis
    apply (rule exI[of _ "concat (map objectsOf (stake (length (chunks 100 ?ids)) (batchAnswers w)))"])
    apply (rule exI[of _ ?w'])
    apply (rule exI[of _ ?reqs])
    apply (intro conjI)
          apply (rule run)
         apply (rule log)
        apply (rule apis)
       apply (rule ids)
      apply (rule cat)
     apply (rule bounds)
    apply (rule sizes)
    done
qed

theorem resolve_batches_witness:
  "\<exists>objs w' reqs.
      getAssociatedObjects (Suc 0) ''42'' ''notes'' world250 =
        Some (Inr (Resolved (replicate 250 exampleAssociation) objs), w')
    \<and> batchRequests w' = reqs
    \<and> map fst reqs = [NotesApi, NotesApi, NotesApi]
    \<and> map (length \<circ> fst \<circ> snd) reqs = [100, 100, 50]"
proof -
  have l: "shd (assocAnswers world250) = Inr listing250"
    by (simp add: world250_def)
  have ne: "assoc_results listing250 \<noteq> []"
    by (simp add: listing250_def)
  obtain objs w' reqs where all:
    "getAssociatedObjects (Suc 0) ''42'' ''notes'' world250 =
        Some (Inr (Resolved (assoc_results listing250) objs), w')
    \<and> batchRequests w' = batchRequests world250 @ reqs
    \<and> map fst reqs = replicate (length reqs) NotesApi
    \<and> map (fst \<circ> snd) reqs = chunks 100 (map toObjectId (assoc_results listing250))
    \<and> concat (map (fst \<circ> snd) reqs) = map toObjectId (assoc_results listing250)
    \<and> (\<forall>r \<in> set reqs. 0 < length (fst (snd r)) \<and> length (fst (snd r)) \<le> 100)
    \<and> (length (assoc_results listing250) = 250 \<longrightarrow>
          map (length \<circ> fst \<circ> snd) reqs = [100, 100, 50])"
    using resolve_batches[OF batchApiOf_notes l ne, of 0 "''42''"] by (elim exE) (rule that)
  from all have
    run: "getAssociatedObjects (Suc 0) ''42'' ''notes'' world250 =
        Some (Inr (Resolved (assoc_results listing250) objs), w')"
    and log: "batchRequests w' = batchRequests world250 @ reqs"
    and apis: "map fst reqs = replicate (length reqs) NotesApi"
    and sizes: "length (assoc_results listing250) = 250 \<longrightarrow>
          map (length \<circ> fst \<circ> snd) reqs = [100, 100, 50]"
    by simp_all
  have s: "map (length \<circ> fst \<circ> snd) reqs = [100, 100, 50]"
    using sizes by (simp add: listing250_def)
  then have "length reqs = 3"
    by (metis length_map length_Cons list.size(3) numeral_3_eq_3)
  with apis have a: "map fst reqs = [NotesApi, NotesApi, NotesApi]"
    by (simp add: numeral_3_eq_3)
  have b: "batchRequests w' = reqs"
    using log by (simp add: world250_def exampleWorld_def)
  from run a b s show ?thesis
    by (auto simp: listing250_def)
qed

text \<open>
  Claim C4. Under the same conditions the returned \<^verbatim>\<open>objects\<close> are the objects of the
  batched reads that succeeded, in order, a failed read contributing nothing; all the reads
  are issued whatever fails; \<^verbatim>\<open>associations\<close> holds every reference of the listing;
  and the function returns, it does not raise.
\<close>

theorem resolve_partial_failure:
  assumes "batchApiOf objectType = Some api"
    and "shd (assocAnswers w) = Inr listing"
    and "assoc_results listing \<noteq> []"
  shows "\<exists>w'.
      getAssociatedObjects (Suc fuel) dealId objectType w =
        Some (Inr (Resolved (assoc_results listing)
               (concat (map objectsOf
                  (stake ((length (assoc_results listing) + 99) div 100) (batchAnswers w))))),
              w')
    \<and> length (batchRequests w') =
        length (batchRequests w) + (length (assoc_results listing) + 99) div 100"
  using getAssociatedObjects_listing[OF assms, of fuel dealId]
  by (simp add: length_chunks)

theorem resolve_partial_failure_witness:
  "\<exists>w'. getAssociatedObjects (Suc 0) ''42'' ''notes'' world250 =
        Some (Inr (Resolved (replicate 250 exampleAssociation) [note1, note2]), w')
    \<and> length (batchRequests w') = 3"
proof -
  have l: "shd (assocAnswers world250) = Inr listing250"
    by (simp add: world250_def)
  have ne: "assoc_results listing250 \<noteq> []"
    by (simp add: listing250_def)
  show ?thesis
    using resolve_partial_failure[OF batchApiOf_notes l ne, of 0 "''42''"]
    by (simp add: listing250_def world250_def exampleWorld_def numeral_3_eq_3)
qed

subsection \<open>Paginated deal listing\<close>

lemma pagination_example: "pagination [page1, page2]"
  by (simp add: pagination_def nextOf_def page1_def page2_def)

text \<open>
  Claim C1. When the vendor answers the listing with a pagination sequence,
  \<^verbatim>\<open>getAllDeals\<close> returns the concatenation of the results of its pages in page
  order. It issues one request per page, the first without cursor and each further one
  with the cursor of the page before; it has not terminated before the page that lacks
  a next-page cursor, and asks nothing after it. If the vendor repeats no deal id, the
  result has no duplicate deal id.
\<close>

theorem fetch_all_pages:
  assumes "pagination pages"
    and "pageAnswers w = map Inr pages @- rest"
    and "length pages \<le> fuel"
  shows "\<exists>deals w'.
      getAllDeals fuel w = Some (Inr deals, w')
    \<and> deals = concat (map page_results pages)
    \<and> pageAnswers w' = rest
    \<and> pageRequests w' =
        pageRequests w @
        map (\<lambda>c. (batchSize (config w), c, clientToken w)) (cursorsFrom None pages)
    \<and> length (pageRequests w') = length (pageRequests w) + length pages
    \<and> (\<forall>k < length pages. getAllDeals k w = None)
    \<and> (distinct (map deal_ident (concat (map page_results pages))) \<longrightarrow>
          distinct (map deal_ident deals))"
  using getAllDeals_loop_pages[OF assms, of "[]" None]
    getAllDeals_loop_running[OF assms(1,2), of _ "[]" None]
  by (simp add: getAllDeals_def)

theorem fetch_all_pages_witness:
  "\<exists>w'. getAllDeals 2 worldTwoPages = Some (Inr [dealA, dealB, dealC], w')
     \<and> pageAnswers w' = sconst (Inl unavailable)
     \<and> map (fst \<circ> snd) (pageRequests w') = [None, Some ''2'']
     \<and> distinct (map deal_ident [dealA, dealB, dealC])"
proof -
  have a: "pageAnswers worldTwoPages = map Inr [page1, page2] @- sconst (Inl unavailable)"
    by (simp add: worldTwoPages_def)
  have d: "distinct (map deal_ident [dealA, dealB, dealC])"
    by (simp add: dealA_def dealB_def dealC_def)
  show ?thesis
    using fetch_all_pages[OF pagination_example a, of 2] d
    by (auto simp: worldTwoPages_def exampleWorld_def page1_def page2_def
        cursorAfter_def nextOf_def)
qed

text \<open>
  Claim C2. The request for page \<open>N\<close> (the pages \<open>pre\<close> are fetched, \<open>post\<close> are
  still to come) fails with an error whose message holds \<^verbatim>\<open>401\<close>, a refresh token
  is configured and the token exchange succeeds. Then \<^verbatim>\<open>getAllDeals\<close> makes one
  token exchange and asks for the same page again: the requests are those of the run
  without the failure up to page \<open>N\<close>, then page \<open>N\<close> again and the rest, now with
  the new access token. The deals returned are those of the run in which the failure
  does not occur.
\<close>

theorem retry_same_page:
  assumes "pagination (pre @ post)"
    and "post \<noteq> []"
    and "pageAnswers w = map Inr pre @- (Inl e ## (map Inr post @- rest))"
    and "includes_str (message e) ''401''"
    and "truthy (refreshToken (config w))"
    and "shd (tokenAnswers w) = Inr tr"
    and "length pre + length post < fuel"
  shows "\<exists>w' w0'.
      getAllDeals fuel w = Some (Inr (concat (map page_results (pre @ post))), w')
    \<and> getAllDeals fuel (w\<lparr>pageAnswers := map Inr (pre @ post) @- rest\<rparr>) =
        Some (Inr (concat (map page_results (pre @ post))), w0')
    \<and> pageRequests w0' =
        pageRequests w @
        map (\<lambda>c. (batchSize (config w), c, clientToken w)) (cursorsFrom None (pre @ post))
    \<and> pageRequests w' =
        pageRequests w @
        map (\<lambda>c. (batchSize (config w), c, clientToken w))
          (take (Suc (length pre)) (cursorsFrom None (pre @ post))) @
        map (\<lambda>c. (batchSize (config w), c, Some (res_accessToken tr)))
          (drop (length pre) (cursorsFrom None (pre @ post)))
    \<and> tokenRequests w' =
        tokenRequests w @ [(clientId (config w), clientSecret (config w), refreshToken (config w))]
    \<and> pageAnswers w' = rest"
proof -
  let ?c = "foldl cursorAfter None pre"
  let ?req = "\<lambda>c. (batchSize (config w), c, clientToken w)"
  from assms(1,2) have cont: "\<forall>p \<in> set pre. nextOf p \<noteq> None" and pg: "pagination post"
    by (simp_all add: pagination_def butlast_append)
  define k where "k = fuel - Suc (length pre)"
  have k: "fuel = length pre + Suc k" and kp: "length post \<le> k"
    using assms(7) by (simp_all add: k_def)
  let ?w1 = "w\<lparr>pageAnswers := Inl e ## (map Inr post @- rest),
          pageRequests := pageRequests w @ map ?req (cursorsFrom None pre)\<rparr>"
  let ?w2 = "afterRefresh (afterPageRequest ?c ?w1)"
  have s1: "getAllDeals_loop fuel [] None w =
      getAllDeals_loop (Suc k) (concat (map page_results pre)) ?c ?w1"
    unfolding k using getAllDeals_loop_prefix[OF cont assms(3), of "Suc k" "[]" None] by simp
  have s2: "getAllDeals_loop (Suc k) (concat (map page_results pre)) ?c ?w1 =
      getAllDeals_loop k (concat (map page_results pre)) ?c ?w2"
    using getAllDeals_loop_expired[of ?w1 e k "concat (map page_results pre)" ?c] assms(4,5,6)
    by simp
  have a2: "pageAnswers ?w2 = map Inr post @- rest"
    by simp
  have ct: "clientToken ?w2 = Some (res_accessToken tr)"
    using assms(6) by (simp add: afterRefresh_clientToken)
  let ?w3 = "?w2\<lparr>pageAnswers := rest,
         pageRequests := pageRequests ?w2 @
           map (\<lambda>c. (batchSize (config ?w2), c, clientToken ?w2)) (cursorsFrom ?c post)\<rparr>"
  have s3: "getAllDeals_loop k (concat (map page_results pre)) ?c ?w2 =
      Some (Inr (concat (map page_results pre) @ concat (map page_results post)), ?w3)"
    by (rule getAllDeals_loop_pages[OF pg a2 kp])
  have run: "getAllDeals fuel w = Some (Inr (concat (map page_results (pre @ post))), ?w3)"
    unfolding getAllDeals_def s1 s2 s3 by simp
  let ?v = "w\<lparr>pageAnswers := map Inr (pre @ post) @- rest\<rparr>"
  let ?v' = "?v\<lparr>pageAnswers := rest,
         pageRequests := pageRequests ?v @
           map (\<lambda>c. (batchSize (config ?v), c, clientToken ?v)) (cursorsFrom None (pre @ post))\<rparr>"
  have clean: "getAllDeals fuel ?v = Some (Inr (concat (map page_results (pre @ post))), ?v')"
    unfolding getAllDeals_def
    using getAllDeals_loop_pages[OF assms(1), of ?v rest fuel "[]" None] assms(7) by simp
  have log0: "pageRequests ?v' = pageRequests w @ map ?req (cursorsFrom None (pre @ post))"
    by simp
  have log: "pageRequests ?w3 =
      pageRequests w @
      map ?req (take (Suc (length pre)) (cursorsFrom None (pre @ post))) @
      map (\<lambda>c. (batchSize (config w), c, Some (res_accessToken tr)))
        (drop (length pre) (cursorsFrom None (pre @ post)))"
  proof -
    from assms(2) obtain q qs where q: "post = q # qs"
      by (cases post) auto
    have "pageRequests ?w3 =
        pageRequests w @ map ?req (cursorsFrom None pre @ [?c]) @
        map (\<lambda>c. (batchSize (config w), c, Some (res_accessToken tr))) (cursorsFrom ?c post)"
      by (simp add: ct)
    moreover have "take (Suc (length pre)) (cursorsFrom None (pre @ post)) =
        cursorsFrom None pre @ [?c]"
      by (simp add: cursorsFrom_append q)
    moreover have "drop (length pre) (cursorsFrom None (pre @ post)) = cursorsFrom ?c post"
      by (simp add: cursorsFrom_append)
    ultimately show ?thesis
      by (simp only:)
  qed
  have tok: "tokenRequests ?w3 =
      tokenRequests w @ [(clientId (config w), clientSecret (config w), refreshToken (config w))]"
    by simp
  have rest: "pageAnswers ?w3 = rest"
    by simp
  show ?thesis
    apply (rule exI[of _ ?w3])
    apply (rule exI[of _ ?v'])
    apply (intro conjI)
         apply (rule run)
        apply (rule clean)
       apply (rule log0)
      apply (rule log)
     apply (rule tok)
    apply (rule rest)
    done
qed

theorem retry_same_page_witness:
  "\<exists>w' w0'.
      getAllDeals 3 worldExpiredOnPage2 = Some (Inr [dealA, dealB, dealC], w')
    \<and> getAllDeals 3
        (worldExpiredOnPage2\<lparr>pageAnswers := [Inr page1, Inr page2] @- sconst (Inl unavailable)\<rparr>) =
        Some (Inr [dealA, dealB, dealC], w0')
    \<and> pageRequests w0' = [(100, None, Some ''token-0''), (100, Some ''2'', Some ''token-0'')]
    \<and> pageRequests w' =
        [(100, None, Some ''token-0''), (100, Some ''2'', Some ''token-0''),
         (100, Some ''2'', Some ''token-1'')]
    \<and> tokenRequests w' = [(Some ''client'', Some ''secret'', Some ''refresh-0'')]"
proof -
  have p: "pagination ([page1] @ [page2])"
    using pagination_example by simp
  have a: "pageAnswers worldExpiredOnPage2 =
      map Inr [page1] @- (Inl unauthorized ## (map Inr [page2] @- sconst (Inl unavailable)))"
    by (simp add: worldExpiredOnPage2_def)
  have m: "includes_str (message unauthorized) ''401''"
    by (simp add: unauthorized_def startsWith_def)
  have r: "truthy (refreshToken (config worldExpiredOnPage2))"
    by (simp add: worldExpiredOnPage2_def exampleWorld_def exampleConfig_def truthy_def)
  have t: "shd (tokenAnswers worldExpiredOnPage2) = Inr tokenResponse1"
    by (simp add: worldExpiredOnPage2_def)
  have f: "length [page1] + length [page2] < (3::nat)"
    by simp
  have c: "cursorsFrom None ([page1] @ [page2]) = [None, Some ''2'']"
    by (simp add: cursorAfter_def nextOf_def page1_def)
  have g: "config worldExpiredOnPage2 = exampleConfig"
    "clientToken worldExpiredOnPage2 = Some ''token-0''"
    "pageRequests worldExpiredOnPage2 = []" "tokenRequests worldExpiredOnPage2 = []"
    by (simp_all add: worldExpiredOnPage2_def exampleWorld_def)
  have d: "concat (map page_results ([page1] @ [page2])) = [dealA, dealB, dealC]"
    by (simp add: page1_def page2_def)
  show ?thesis
    using retry_same_page[OF p _ a m r t f]
    unfolding c d g
    by (simp add: exampleConfig_def tokenResponse1_def) blast
qed

subsection \<open>Shape of the activity record\<close>

text \<open>
  Claim C5. For every deal id, \<^verbatim>\<open>getDealActivities\<close> never raises; a record that it
  returns carries the deal id and exactly the five keys notes, calls, meetings, emails and
  tasks. When an error escapes the resolver, so that the \<^verbatim>\<open>try\<close> block fails, it
  returns the record with the \<^verbatim>\<open>error\<close> field set to the message of the error and
  the five entries equal to the empty pair. It does return, with any fuel above \<open>n\<close>, when
  the association listings are answered without expiry from the \<open>n\<close>-th answer on.
\<close>

theorem aggregate_shape:
  "(\<forall>e w'. getDealActivities fuel dealId w \<noteq> Some (Inl e, w'))
   \<and> (\<forall>acts w'. getDealActivities fuel dealId w = Some (Inr acts, w') \<longrightarrow>
        deal_id acts = dealId \<and>
        map fst (activity_types acts) = [''notes'', ''calls'', ''meetings'', ''emails'', ''tasks''])
   \<and> (\<forall>e w1. getDealActivities_try fuel dealId w = Some (Inl e, w1) \<longrightarrow>
        getDealActivities fuel dealId w =
          Some (Inr \<lparr>deal_id = dealId, timestamp = now w1, error_field = Some (message e),
                     activity_types =
                       [(''notes'', Resolved [] []), (''calls'', Resolved [] []),
                        (''meetings'', Resolved [] []), (''emails'', Resolved [] []),
                        (''tasks'', Resolved [] [])]\<rparr>, w1))
   \<and> (quiet n (assocAnswers w) \<and> n < fuel \<longrightarrow>
        (\<exists>acts w'. getDealActivities fuel dealId w = Some (Inr acts, w')))"
  using getDealActivities_never_raises[of fuel dealId w]
    getDealActivities_keys[of fuel dealId w]
    getDealActivities_returns[of n w fuel dealId]
  by (auto simp: getDealActivities_def emptyResult_def)

theorem aggregate_shape_witness:
  "(\<exists>w'. getDealActivities (Suc 0) ''42'' worldRefreshFails =
       Some (Inr \<lparr>deal_id = ''42'', timestamp = 1000, error_field = Some ''HTTP-Code: 503'',
                  activity_types =
                    [(''notes'', Resolved [] []), (''calls'', Resolved [] []),
                     (''meetings'', Resolved [] []), (''emails'', Resolved [] []),
                     (''tasks'', Resolved [] [])]\<rparr>, w'))
   \<and> (\<exists>acts w'. getDealActivities (Suc 0) ''42'' exampleWorld = Some (Inr acts, w')
        \<and> deal_id acts = ''42''
        \<and> map fst (activity_types acts) = [''notes'', ''calls'', ''meetings'', ''emails'', ''tasks''])"
proof
  let ?w1 = "afterRefresh (afterAssocRequest ''42'' ''notes'' worldRefreshFails)"
  have t: "getDealActivities_try (Suc 0) ''42'' worldRefreshFails = Some (Inl unavailable, ?w1)"
    by (simp add: getDealActivities_try_def activityTypes_def resolve_refresh_fails)
  have n: "now ?w1 = 1000"
    by (simp add: worldRefreshFails_def exampleWorld_def)
  have m: "message unavailable = ''HTTP-Code: 503''"
    by (simp add: unavailable_def)
  from aggregate_shape[of "Suc 0" "''42''" worldRefreshFails 0] t
  have "getDealActivities (Suc 0) ''42'' worldRefreshFails =
          Some (Inr \<lparr>deal_id = ''42'', timestamp = now ?w1, error_field = Some (message unavailable),
                     activity_types =
                       [(''notes'', Resolved [] []), (''calls'', Resolved [] []),
                        (''meetings'', Resolved [] []), (''emails'', Resolved [] []),
                        (''tasks'', Resolved [] [])]\<rparr>, ?w1)"
    by blast
  then show "\<exists>w'. getDealActivities (Suc 0) ''42'' worldRefreshFails =
       Some (Inr \<lparr>deal_id = ''42'', timestamp = 1000, error_field = Some ''HTTP-Code: 503'',
                  activity_types =
                    [(''notes'', Resolved [] []), (''calls'', Resolved [] []),
                     (''meetings'', Resolved [] []), (''emails'', Resolved [] []),
                     (''tasks'', Resolved [] [])]\<rparr>, w')"
    unfolding n m by blast
next
  from aggregate_shape[of "Suc 0" "''42''" exampleWorld 0] quiet_exampleWorld
  obtain acts w' where a: "getDealActivities (Suc 0) ''42'' exampleWorld = Some (Inr acts, w')"
    by auto
  with aggregate_shape[of "Suc 0" "''42''" exampleWorld 0]
  have k: "deal_id acts = ''42'' \<and>
      map fst (activity_types acts) = [''notes'', ''calls'', ''meetings'', ''emails'', ''tasks'']"
    by blast
  show "\<exists>acts w'. getDealActivities (Suc 0) ''42'' exampleWorld = Some (Inr acts, w')
        \<and> deal_id acts = ''42''
        \<and> map fst (activity_types acts) = [''notes'', ''calls'', ''meetings'', ''emails'', ''tasks'']"
    using a k by (intro exI[of _ acts] exI[of _ w']) simp
qed

subsection \<open>Contract of the resolver\<close>

text \<open>
  Claim C7 says that \<^verbatim>\<open>getAssociatedObjects\<close> never raises and always returns an
  object with an \<^verbatim>\<open>associations\<close> and an \<^verbatim>\<open>objects\<close> field, for every
  engagement type. The code does otherwise at two places: for a type that is none of the
  five, a non-empty listing is returned as a bare array; and when the listing fails with
  \<^verbatim>\<open>401\<close> and the token refresh fails, the refresh error is raised, the call of
  \<^verbatim>\<open>refreshAccessToken\<close> in the \<^verbatim>\<open>catch\<close> block standing in no \<^verbatim>\<open>try\<close>.
\<close>

theorem resolve_contract_counterexample:
  "map_option fst (getAssociatedObjects (Suc 0) ''42'' ''contacts'' worldContacts) =
     Some (Inr (RawAssociations [exampleAssociation]))
   \<and> map_option fst (getAssociatedObjects (Suc 0) ''42'' ''notes'' worldRefreshFails) =
     Some (Inl unavailable)"
  by (simp add: resolve_contacts resolve_refresh_fails)

text \<open>
  Claim C7, amended. What \<^verbatim>\<open>getAssociatedObjects\<close> does is fixed by the answer to
  its association listing. An empty listing gives the empty pair. A non-empty listing of
  one of the five types gives the pair of the listed associations and of the objects of
  the batch reads that succeeded, one read per chunk of 100. A non-empty listing of any
  other type gives the bare array of the listed associations, not a pair. A failed
  listing that is no expiry with a refresh token configured gives the empty pair. A
  listing that fails with \<^verbatim>\<open>401\<close> while a refresh token is configured is followed
  by a token refresh: when the refresh fails, the error of the token endpoint is raised;
  when it succeeds, the new access token is installed and the call starts again, for the
  same deal and the same type. Hence whatever is returned is the pair or, only for a type
  that is none of the five and a non-empty listing, the bare array; what is raised is an
  error answered by the token endpoint to a refresh that the call made; and the call
  returns or raises, with any fuel above \<open>n\<close>, when the association listings are
  answered without expiry from the \<open>n\<close>-th answer on.
\<close>

theorem resolve_contract:
  "(\<forall>listing. shd (assocAnswers w) = Inr listing \<and> assoc_results listing = [] \<longrightarrow>
      getAssociatedObjects (Suc fuel) dealId objectType w =
        Some (Inr (Resolved [] []), afterAssocRequest dealId objectType w))
   \<and> (\<forall>listing api. shd (assocAnswers w) = Inr listing \<and> assoc_results listing \<noteq> [] \<and>
          batchApiOf objectType = Some api \<longrightarrow>
      (\<exists>w'. getAssociatedObjects (Suc fuel) dealId objectType w =
        Some (Inr (Resolved (assoc_results listing)
               (concat (map objectsOf
                  (stake ((length (assoc_results listing) + 99) div 100) (batchAnswers w))))),
              w')))
   \<and> (\<forall>listing. shd (assocAnswers w) = Inr listing \<and> assoc_results listing \<noteq> [] \<and>
          batchApiOf objectType = None \<longrightarrow>
      getAssociatedObjects (Suc fuel) dealId objectType w =
        Some (Inr (RawAssociations (assoc_results listing)),
              afterAssocRequest dealId objectType w))
   \<and> (\<forall>e. shd (assocAnswers w) = Inl e \<and>
          \<not> (includes_str (message e) ''401'' \<and> truthy (refreshToken (config w))) \<longrightarrow>
      getAssociatedObjects (Suc fuel) dealId objectType w =
        Some (Inr (Resolved [] []), afterAssocRequest dealId objectType w))
   \<and> (\<forall>e e'. shd (assocAnswers w) = Inl e \<and> includes_str (message e) ''401'' \<and>
          truthy (refreshToken (config w)) \<and> shd (tokenAnswers w) = Inl e' \<longrightarrow>
      getAssociatedObjects (Suc fuel) dealId objectType w =
        Some (Inl e', afterRefresh (afterAssocRequest dealId objectType w)))
   \<and> (\<forall>e tr. shd (assocAnswers w) = Inl e \<and> includes_str (message e) ''401'' \<and>
          truthy (refreshToken (config w)) \<and> shd (tokenAnswers w) = Inr tr \<longrightarrow>
      getAssociatedObjects (Suc fuel) dealId objectType w =
        getAssociatedObjects fuel dealId objectType
          (afterRefresh (afterAssocRequest dealId objectType w))
      \<and> clientToken (afterRefresh (afterAssocRequest dealId objectType w)) =
          Some (res_accessToken tr)
      \<and> assocRequests (afterRefresh (afterAssocRequest dealId objectType w)) =
          assocRequests w @ [(dealId, objectType, clientToken w)])
   \<and> (\<forall>r w'. getAssociatedObjects fuel dealId objectType w = Some (r, w') \<longrightarrow>
      (case r of
         Inr (Resolved a b) \<Rightarrow> True
       | Inr (RawAssociations a) \<Rightarrow> a \<noteq> [] \<and> batchApiOf objectType = None
       | Inl e \<Rightarrow> Inl e \<in> sset (tokenAnswers w) \<and>
           length (tokenRequests w) < length (tokenRequests w')))
   \<and> (quiet n (assocAnswers w) \<and> n < fuel \<longrightarrow>
        (\<exists>r w'. getAssociatedObjects fuel dealId objectType w = Some (r, w')))"
proof (intro conjI allI impI)
  fix listing
  assume "shd (assocAnswers w) = Inr listing \<and> assoc_results listing = []"
  then show "getAssociatedObjects (Suc fuel) dealId objectType w =
        Some (Inr (Resolved [] []), afterAssocRequest dealId objectType w)"
    using getAssociatedObjects_empty by blast
next
  fix listing api
  assume a: "shd (assocAnswers w) = Inr listing \<and> assoc_results listing \<noteq> [] \<and>
          batchApiOf objectType = Some api"
  then have "batchApiOf objectType = Some api" "shd (assocAnswers w) = Inr listing"
    "assoc_results listing \<noteq> []" by simp_all
  from getAssociatedObjects_listing[OF this, of fuel dealId]
  show "\<exists>w'. getAssociatedObjects (Suc fuel) dealId objectType w =
        Some (Inr (Resolved (assoc_results listing)
               (concat (map objectsOf
                  (stake ((length (assoc_results listing) + 99) div 100) (batchAnswers w))))),
              w')"
    by (simp add: length_chunks)
next
  fix listing
  assume "shd (assocAnswers w) = Inr listing \<and> assoc_results listing \<noteq> [] \<and>
          batchApiOf objectType = None"
  then show "getAssociatedObjects (Suc fuel) dealId objectType w =
        Some (Inr (RawAssociations (assoc_results listing)),
              afterAssocRequest dealId objectType w)"
    using getAssociatedObjects_raw by blast
next
  fix e
  assume "shd (assocAnswers w) = Inl e \<and>
          \<not> (includes_str (message e) ''401'' \<and> truthy (refreshToken (config w)))"
  then show "getAssociatedObjects (Suc fuel) dealId objectType w =
        Some (Inr (Resolved [] []), afterAssocRequest dealId objectType w)"
    using getAssociatedObjects_other by blast
next
  fix e e'
  assume a: "shd (assocAnswers w) = Inl e \<and> includes_str (message e) ''401'' \<and>
          truthy (refreshToken (config w)) \<and> shd (tokenAnswers w) = Inl e'"
  then have "shd (assocAnswers w) = Inl e" "includes_str (message e) ''401''"
    "truthy (refreshToken (config w))" by simp_all
  from getAssociatedObjects_expired[OF this, of fuel dealId objectType] a
  show "getAssociatedObjects (Suc fuel) dealId objectType w =
        Some (Inl e', afterRefresh (afterAssocRequest dealId objectType w))"
    by simp
next
  fix e tr
  assume a: "shd (assocAnswers w) = Inl e \<and> includes_str (message e) ''401'' \<and>
          truthy (refreshToken (config w)) \<and> shd (tokenAnswers w) = Inr tr"
  then have "shd (assocAnswers w) = Inl e" "includes_str (message e) ''401''"
    "truthy (refreshToken (config w))" by simp_all
  from getAssociatedObjects_expired[OF this, of fuel dealId objectType] a
  show "getAssociatedObjects (Suc fuel) dealId objectType w =
        getAssociatedObjects fuel dealId objectType
          (afterRefresh (afterAssocRequest dealId objectType w))"
    by simp
  show "clientToken (afterRefresh (afterAssocRequest dealId objectType w)) =
          Some (res_accessToken tr)"
    using a by (simp add: afterRefresh_clientToken)
  show "assocRequests (afterRefresh (afterAssocRequest dealId objectType w)) =
          assocRequests w @ [(dealId, objectType, clientToken w)]"
    by simp
next
  fix r w'
  assume "getAssociatedObjects fuel dealId objectType w = Some (r, w')"
  from getAssociatedObjects_shape[OF this]
  show "case r of
         Inr (Resolved a b) \<Rightarrow> True
       | Inr (RawAssociations a) \<Rightarrow> a \<noteq> [] \<and> batchApiOf objectType = None
       | Inl e \<Rightarrow> Inl e \<in> sset (tokenAnswers w) \<and>
           length (tokenRequests w) < length (tokenRequests w')"
    by simp
next
  assume "quiet n (assocAnswers w) \<and> n < fuel"
  then show "\<exists>r w'. getAssociatedObjects fuel dealId objectType w = Some (r, w')"
    using getAssociatedObjects_returns by blast
qed

theorem resolve_contract_witness:
  "getAssociatedObjects (Suc 0) ''42'' ''notes'' worldNoAssociations =
     Some (Inr (Resolved [] []), afterAssocRequest ''42'' ''notes'' worldNoAssociations)
   \<and> (\<exists>w'. getAssociatedObjects (Suc 0) ''42'' ''notes'' world250 =
         Some (Inr (Resolved (replicate 250 exampleAssociation) [note1, note2]), w'))
   \<and> getAssociatedObjects (Suc 0) ''42'' ''contacts'' worldContacts =
       Some (Inr (RawAssociations [exampleAssociation]),
             afterAssocRequest ''42'' ''contacts'' worldContacts)
   \<and> getAssociatedObjects (Suc 0) ''42'' ''notes'' exampleWorld =
       Some (Inr (Resolved [] []), afterAssocRequest ''42'' ''notes'' exampleWorld)
   \<and> getAssociatedObjects (Suc 0) ''42'' ''notes'' worldRefreshFails =
       Some (Inl unavailable, afterRefresh (afterAssocRequest ''42'' ''notes'' worldRefreshFails))
   \<and> getAssociatedObjects (Suc (Suc 0)) ''42'' ''notes'' worldExpiredTwice =
       getAssociatedObjects (Suc 0) ''42'' ''notes''
         (afterRefresh (afterAssocRequest ''42'' ''notes'' worldExpiredTwice))
   \<and> clientToken (afterRefresh (afterAssocRequest ''42'' ''notes'' worldExpiredTwice)) =
       Some ''token-1''
   \<and> assocRequests (afterRefresh (afterAssocRequest ''42'' ''notes'' worldExpiredTwice)) =
       [(''42'', ''notes'', Some ''token-0'')]
   \<and> Inl unavailable \<in> sset (tokenAnswers worldRefreshFails)
   \<and> (\<exists>r w'. getAssociatedObjects (Suc 0) ''42'' ''contacts'' worldContacts = Some (r, w'))"
proof -
  have c0: "batchApiOf ''contacts'' = None"
    by (simp add: batchApiOf_def)
  have t0: "truthy (refreshToken (config worldRefreshFails))"
    "truthy (refreshToken (config worldExpiredTwice))"
    by (simp_all add: worldRefreshFails_def worldExpiredTwice_def exampleWorld_def
        exampleConfig_def truthy_def)
  have 1: "getAssociatedObjects (Suc 0) ''42'' ''notes'' worldNoAssociations =
     Some (Inr (Resolved [] []), afterAssocRequest ''42'' ''notes'' worldNoAssociations)"
  proof -
    have "shd (assocAnswers worldNoAssociations) = Inr \<lparr>assoc_results = []\<rparr> \<and>
        assoc_results \<lparr>assoc_results = []\<rparr> = []"
      by (simp add: worldNoAssociations_def)
    with resolve_contract[of worldNoAssociations 0 "''42''" "''notes''" 0] show ?thesis
      by blast
  qed
  have 2: "\<exists>w'. getAssociatedObjects (Suc 0) ''42'' ''notes'' world250 =
         Some (Inr (Resolved (replicate 250 exampleAssociation) [note1, note2]), w')"
  proof -
    have h: "shd (assocAnswers world250) = Inr listing250 \<and> assoc_results listing250 \<noteq> [] \<and>
        batchApiOf ''notes'' = Some NotesApi"
      by (simp add: world250_def listing250_def batchApiOf_notes)
    have o: "concat (map objectsOf
        (stake ((length (replicate 250 exampleAssociation) + 99) div 100)
           (batchAnswers world250))) = [note1, note2]"
      by (simp add: world250_def numeral_3_eq_3)
    have a: "assoc_results listing250 = replicate 250 exampleAssociation"
      by (simp add: listing250_def)
    from resolve_contract[of world250 0 "''42''" "''notes''" 0] h
    have "\<exists>w'. getAssociatedObjects (Suc 0) ''42'' ''notes'' world250 =
        Some (Inr (Resolved (assoc_results listing250)
               (concat (map objectsOf
                  (stake ((length (assoc_results listing250) + 99) div 100)
                     (batchAnswers world250))))), w')"
      by blast
    then show ?thesis unfolding a o .
  qed
  have 3: "getAssociatedObjects (Suc 0) ''42'' ''contacts'' worldContacts =
       Some (Inr (RawAssociations [exampleAssociation]),
             afterAssocRequest ''42'' ''contacts'' worldContacts)"
  proof -
    have h: "shd (assocAnswers worldContacts) = Inr \<lparr>assoc_results = [exampleAssociation]\<rparr> \<and>
        assoc_results \<lparr>assoc_results = [exampleAssociation]\<rparr> \<noteq> [] \<and>
        batchApiOf ''contacts'' = None"
      by (simp add: worldContacts_def c0)
    from resolve_contract[of worldContacts 0 "''42''" "''contacts''" 0] h
    have "getAssociatedObjects (Suc 0) ''42'' ''contacts'' worldContacts =
       Some (Inr (RawAssociations (assoc_results \<lparr>assoc_results = [exampleAssociation]\<rparr>)),
             afterAssocRequest ''42'' ''contacts'' worldContacts)"
      by blast
    then show ?thesis by simp
  qed
  have 4: "getAssociatedObjects (Suc 0) ''42'' ''notes'' exampleWorld =
       Some (Inr (Resolved [] []), afterAssocRequest ''42'' ''notes'' exampleWorld)"
  proof -
    have "shd (assocAnswers exampleWorld) = Inl unavailable \<and>
        \<not> (includes_str (message unavailable) ''401'' \<and>
           truthy (refreshToken (config exampleWorld)))"
      by (simp add: exampleWorld_def includes_unavailable)
    with resolve_contract[of exampleWorld 0 "''42''" "''notes''" 0] show ?thesis
      by blast
  qed
  have 5: "getAssociatedObjects (Suc 0) ''42'' ''notes'' worldRefreshFails =
       Some (Inl unavailable, afterRefresh (afterAssocRequest ''42'' ''notes'' worldRefreshFails))"
  proof -
    have "shd (assocAnswers worldRefreshFails) = Inl unauthorized \<and>
        includes_str (message unauthorized) ''401'' \<and>
        truthy (refreshToken (config worldRefreshFails)) \<and>
        shd (tokenAnswers worldRefreshFails) = Inl unavailable"
      using t0 by (simp add: worldRefreshFails_def exampleWorld_def includes_unauthorized)
    with resolve_contract[of worldRefreshFails 0 "''42''" "''notes''" 0] show ?thesis
      by blast
  qed
  have h6: "shd (assocAnswers worldExpiredTwice) = Inl unauthorized \<and>
        includes_str (message unauthorized) ''401'' \<and>
        truthy (refreshToken (config worldExpiredTwice)) \<and>
        shd (tokenAnswers worldExpiredTwice) = Inr tokenResponse1"
    using t0 by (simp add: worldExpiredTwice_def exampleWorld_def includes_unauthorized)
  from resolve_contract[of worldExpiredTwice "Suc 0" "''42''" "''notes''" 0] h6
  have 6: "getAssociatedObjects (Suc (Suc 0)) ''42'' ''notes'' worldExpiredTwice =
       getAssociatedObjects (Suc 0) ''42'' ''notes''
         (afterRefresh (afterAssocRequest ''42'' ''notes'' worldExpiredTwice))
      \<and> clientToken (afterRefresh (afterAssocRequest ''42'' ''notes'' worldExpiredTwice)) =
          Some (res_accessToken tokenResponse1)
      \<and> assocRequests (afterRefresh (afterAssocRequest ''42'' ''notes'' worldExpiredTwice)) =
          assocRequests worldExpiredTwice @ [(''42'', ''notes'', clientToken worldExpiredTwice)]"
    by blast
  have z: "assocRequests worldExpiredTwice = []" "clientToken worldExpiredTwice = Some ''token-0''"
    "res_accessToken tokenResponse1 = ''token-1''"
    by (simp_all add: worldExpiredTwice_def exampleWorld_def tokenResponse1_def)
  have 7: "Inl unavailable \<in> sset (tokenAnswers worldRefreshFails)"
    using resolve_contract[of worldRefreshFails "Suc 0" "''42''" "''notes''" 0] 5
    by (auto split: sum.splits)
  have q: "quiet 0 (assocAnswers worldContacts)"
    by (simp add: worldContacts_def quiet_0_SCons quiet_0_sconst)
  have 8: "\<exists>r w'. getAssociatedObjects (Suc 0) ''42'' ''contacts'' worldContacts = Some (r, w')"
    using resolve_contract[of worldContacts "Suc 0" "''42''" "''contacts''" 0] q
    by blast
  from 1 2 3 4 5 6 7 8 show ?thesis
    unfolding z by simp
qed

subsection \<open>Persisting refreshed tokens\<close>

text \<open>
  Claim C10. \<^verbatim>\<open>updateEnvFile\<close>, of the sync script and of the OAuth script, never
  raises. So when the token exchange succeeds, \<^verbatim>\<open>refreshAccessToken\<close> returns the new
  access token and the configuration holds the new tokens, whatever the filesystem does;
  and when reading or writing \<^verbatim>\<open>.env\<close> fails, the file is left as it was, with the
  tokens it had before.
\<close>

theorem refresh_survives_persist_failure:
  "fst (updateEnvFile tks w) = Inr ()
   \<and> fst (oauth_updateEnvFile k tks w) = Inr ()
   \<and> (shd (tokenAnswers w) = Inr tr \<longrightarrow>
        fst (refreshAccessToken w) = Inr (res_accessToken tr)
      \<and> config (snd (refreshAccessToken w)) =
          (config w)\<lparr>accessToken := Some (res_accessToken tr),
                    refreshToken := Some (res_refreshToken tr),
                    tokenExpiresAt := Some (now w + res_expiresIn tr * 1000)\<rparr>
      \<and> ((shd (fsFaults w) \<noteq> None \<or> shd (stl (fsFaults w)) \<noteq> None) \<longrightarrow>
            envFile (snd (refreshAccessToken w)) = envFile w))"
  by (auto simp: updateEnvFile_returns oauth_updateEnvFile_returns refreshAccessToken_result
      refreshAccessToken_config refreshAccessToken_envFile updateEnvFile_envFile
      split: option.splits)

theorem refresh_survives_persist_failure_witness:
  "fst (refreshAccessToken worldWriteFails) = Inr ''token-1''
   \<and> accessToken (config (snd (refreshAccessToken worldWriteFails))) = Some ''token-1''
   \<and> refreshToken (config (snd (refreshAccessToken worldWriteFails))) = Some ''refresh-1''
   \<and> envFile (snd (refreshAccessToken worldWriteFails)) = Some ''HUBSPOT_ACCESS_TOKEN=token-0''"
proof -
  have t: "shd (tokenAnswers worldWriteFails) = Inr tokenResponse1"
    by (simp add: worldWriteFails_def)
  have f: "shd (fsFaults worldWriteFails) \<noteq> None \<or> shd (stl (fsFaults worldWriteFails)) \<noteq> None"
    by (simp add: worldWriteFails_def)
  show ?thesis
    using refresh_survives_persist_failure[of _ worldWriteFails _ tokenResponse1] t f
    by (simp add: worldWriteFails_def exampleWorld_def exampleConfig_def tokenResponse1_def)
qed

subsection \<open>Refresh and retry\<close>

text \<open>
  Claim C8 says that a request that fails with an authentication-expiry error is retried
  once, after one token refresh, and that a second expiry of the same request escalates.
  In the code the retry is the next iteration of the loop of \<^verbatim>\<open>getAllDeals\<close>, or a
  new call of \<^verbatim>\<open>getAssociatedObjects\<close>, and is handled like the first attempt: here
  the first page fails twice with \<^verbatim>\<open>401\<close>, the token is refreshed twice and the
  page is asked for three times, and the deals are returned.
\<close>

theorem single_retry_counterexample:
  "map_option fst (getAllDeals 3 worldExpiredTwice) = Some (Inr [dealC])
   \<and> map_option (tokenRequests \<circ> snd) (getAllDeals 3 worldExpiredTwice) =
       Some [(Some ''client'', Some ''secret'', Some ''refresh-0''),
             (Some ''client'', Some ''secret'', Some ''refresh-1'')]
   \<and> map_option (map (fst \<circ> snd) \<circ> pageRequests \<circ> snd) (getAllDeals 3 worldExpiredTwice) =
       Some [None, None, None]"
proof -
  let ?w = worldExpiredTwice
  let ?w1 = "afterRefresh (afterPageRequest None ?w)"
  let ?w2 = "afterRefresh (afterPageRequest None ?w1)"
  have m: "includes_str (message unauthorized) ''401''"
    by (rule includes_unauthorized)
  have p0: "pageAnswers ?w = Inl unauthorized ## Inl unauthorized ## Inr page2 ## sconst (Inl unavailable)"
    and t0: "tokenAnswers ?w = Inr tokenResponse1 ## Inr tokenResponse2 ## sconst (Inl unavailable)"
    and c0: "config ?w = exampleConfig" and r0: "tokenRequests ?w = []" "pageRequests ?w = []"
    by (simp_all add: worldExpiredTwice_def exampleWorld_def)
  have tr0: "truthy (refreshToken (config ?w))"
    by (simp add: c0 exampleConfig_def truthy_def)
  have c1: "config ?w1 = exampleConfig\<lparr>accessToken := Some ''token-1'',
      refreshToken := Some ''refresh-1'', tokenExpiresAt := Some (now ?w + 1800 * 1000)\<rparr>"
    using afterRefresh_config[of "afterPageRequest None ?w" tokenResponse1]
    by (simp add: t0 c0 tokenResponse1_def)
  have tr1: "truthy (refreshToken (config ?w1))"
    by (simp add: c1 truthy_def)
  have s1: "getAllDeals_loop (Suc (Suc (Suc 0))) [] None ?w = getAllDeals_loop (Suc (Suc 0)) [] None ?w1"
    using getAllDeals_loop_expired[of ?w unauthorized "Suc (Suc 0)" "[]" None] m tr0
    by (simp add: p0 t0)
  have s2: "getAllDeals_loop (Suc (Suc 0)) [] None ?w1 = getAllDeals_loop (Suc 0) [] None ?w2"
    using getAllDeals_loop_expired[of ?w1 unauthorized "Suc 0" "[]" None] m tr1
    by (simp add: p0 t0)
  have s3: "getAllDeals_loop (Suc 0) [] None ?w2 =
      Some (Inr [dealC], afterPageRequest None ?w2)"
    using getAllDeals_loop_page[of ?w2 page2 0 "[]" None]
    by (simp add: p0 nextOf_def page2_def)
  have run: "getAllDeals 3 ?w = Some (Inr [dealC], afterPageRequest None ?w2)"
    unfolding getAllDeals_def numeral_3_eq_3 s1 s2 s3 ..
  show ?thesis
    unfolding run
    by (simp add: r0 c0 c1 exampleConfig_def)
qed

text \<open>
  Claim C8, amended. A refresh token is configured and the token endpoint answers the
  first \<open>n\<close> refreshes with tokens \<open>trs\<close>, each with a non-empty refresh token.

  \<^item> The request for a page of deals fails \<open>n\<close> times with \<^verbatim>\<open>401\<close> and is then
    answered: \<^verbatim>\<open>getAllDeals\<close> returns the deals of all pages. After the requests
    for the pages before, it has made the request for that page \<open>n + 1\<close> times, each
    time with the same limit and the same cursor, the first time with the installed
    access token and then with the token of each refresh in turn; the pages after are
    asked for with the last token. It has made \<open>n\<close> token requests, the first with the
    configured refresh token and each further one with the refresh token of the answer
    before.
  \<^item> The association listing fails \<open>n\<close> times with \<^verbatim>\<open>401\<close> and is then
    answered: \<^verbatim>\<open>getAssociatedObjects\<close> returns the associations of that answer,
    having made the listing request \<open>n + 1\<close> times, each for the same deal and the
    same type, with the same succession of access tokens, and \<open>n\<close> token requests.
  \<^item> When the request fails once more with \<^verbatim>\<open>401\<close> and the token endpoint
    answers the next refresh with an error, that error is raised, after \<open>n + 1\<close>
    requests and \<open>n + 1\<close> token requests. With \<open>n = 0\<close> this is the failure of the
    first refresh.
  \<^item> A batched read that fails with \<^verbatim>\<open>401\<close> causes no refresh and is not made
    again: each chunk is read once and no token is requested.

  So there is one refresh and one further attempt of the same request for each expiry,
  and no bound on their number.
\<close>

theorem refresh_per_expiry:
  assumes "includes_str (message e) ''401''"
    and "truthy (refreshToken (config w))"
    and "\<forall>tr \<in> set trs. res_refreshToken tr \<noteq> []"
    and "tokenAnswers w = map Inr trs @- trest"
  shows "(pagination (pre @ post) \<and> post \<noteq> [] \<and>
      pageAnswers w =
        map Inr pre @- (replicate (length trs) (Inl e) @- (map Inr post @- rest)) \<and>
      length pre + length trs + length post \<le> fuel \<longrightarrow>
      (\<exists>w'. getAllDeals fuel w = Some (Inr (concat (map page_results (pre @ post))), w')
         \<and> pageRequests w' =
             pageRequests w @
             map (\<lambda>c. (batchSize (config w), c, clientToken w)) (cursorsFrom None pre) @
             map (\<lambda>b. (batchSize (config w), foldl cursorAfter None pre, b))
               (butlast (bearers w trs)) @
             map (\<lambda>c. (batchSize (config w), c, last (bearers w trs)))
               (cursorsFrom (foldl cursorAfter None pre) post)
         \<and> tokenRequests w' =
             tokenRequests w @
             map (\<lambda>r. (clientId (config w), clientSecret (config w), r))
               (butlast (refreshTokens w trs))
         \<and> pageAnswers w' = rest \<and> tokenAnswers w' = trest))
    \<and> (assocAnswers w = replicate (length trs) (Inl e) @- (Inr listing ## rest') \<and>
        length trs < fuel \<longrightarrow>
      (\<exists>r w'. getAssociatedObjects fuel dealId objectType w = Some (Inr r, w')
         \<and> (case r of Resolved a b \<Rightarrow> a | RawAssociations a \<Rightarrow> a) = assoc_results listing
         \<and> assocRequests w' =
             assocRequests w @ map (\<lambda>b. (dealId, objectType, b)) (bearers w trs)
         \<and> tokenRequests w' =
             tokenRequests w @
             map (\<lambda>r. (clientId (config w), clientSecret (config w), r))
               (butlast (refreshTokens w trs))
         \<and> assocAnswers w' = rest' \<and> tokenAnswers w' = trest))
    \<and> ((\<forall>p \<in> set pre. nextOf p \<noteq> None) \<and>
        pageAnswers w = map Inr pre @- (replicate (length trs) (Inl e) @- (Inl e ## rest)) \<and>
        shd trest = Inl e' \<and> length pre + length trs < fuel \<longrightarrow>
      (\<exists>w'. getAllDeals fuel w = Some (Inl e', w')
         \<and> pageRequests w' =
             pageRequests w @
             map (\<lambda>c. (batchSize (config w), c, clientToken w)) (cursorsFrom None pre) @
             map (\<lambda>b. (batchSize (config w), foldl cursorAfter None pre, b)) (bearers w trs)
         \<and> tokenRequests w' =
             tokenRequests w @
             map (\<lambda>r. (clientId (config w), clientSecret (config w), r)) (refreshTokens w trs)))
    \<and> (assocAnswers w = replicate (length trs) (Inl e) @- (Inl e ## rest') \<and>
        shd trest = Inl e' \<and> length trs < fuel \<longrightarrow>
      (\<exists>w'. getAssociatedObjects fuel dealId objectType w = Some (Inl e', w')
         \<and> assocRequests w' =
             assocRequests w @ map (\<lambda>b. (dealId, objectType, b)) (bearers w trs)
         \<and> tokenRequests w' =
             tokenRequests w @
             map (\<lambda>r. (clientId (config w), clientSecret (config w), r)) (refreshTokens w trs)))
    \<and> (shd (assocAnswers w) = Inr listing \<and> assoc_results listing \<noteq> [] \<and>
        batchApiOf objectType = Some api \<and> shd (batchAnswers w) = Inl e \<longrightarrow>
      (\<exists>objects w'. getAssociatedObjects (Suc fuel) dealId objectType w =
           Some (Inr (Resolved (assoc_results listing) objects), w')
         \<and> batchRequests w' =
             batchRequests w @
             map (\<lambda>c. (api, c, clientToken w))
               (chunks 100 (map toObjectId (assoc_results listing)))
         \<and> tokenRequests w' = tokenRequests w
         \<and> assocRequests w' = assocRequests w @ [(dealId, objectType, clientToken w)]))"
proof (intro conjI impI)
  let ?c = "foldl cursorAfter None pre"
  let ?req = "\<lambda>c. (batchSize (config w), c, clientToken w)"
  let ?D = "concat (map page_results pre)"
  assume a: "pagination (pre @ post) \<and> post \<noteq> [] \<and>
      pageAnswers w =
        map Inr pre @- (replicate (length trs) (Inl e) @- (map Inr post @- rest)) \<and>
      length pre + length trs + length post \<le> fuel"
  then have pag: "pagination (pre @ post)" and pne: "post \<noteq> []"
    by simp_all
  from pag pne have cont: "\<forall>p \<in> set pre. nextOf p \<noteq> None" and pg: "pagination post"
    by (simp_all add: pagination_def butlast_append)
  from a have ans: "pageAnswers w =
        map Inr pre @- (replicate (length trs) (Inl e) @- (map Inr post @- rest))"
    by simp
  define k where "k = fuel - (length pre + length trs)"
  have k: "fuel = length pre + (length trs + k)" and kp: "length post \<le> k"
    using a by (auto simp: k_def)
  let ?w1 = "w\<lparr>pageAnswers := replicate (length trs) (Inl e) @- (map Inr post @- rest),
          pageRequests := pageRequests w @ map ?req (cursorsFrom None pre)\<rparr>"
  let ?w2 = "retries (afterPageRequest ?c) (length trs) ?w1"
  have s1: "getAllDeals_loop fuel [] None w = getAllDeals_loop (length trs + k) ?D ?c ?w1"
    unfolding k using getAllDeals_loop_prefix[OF cont ans, of "length trs + k" "[]" None] by simp
  have t1: "truthy (refreshToken (config ?w1))"
    using assms(2) by simp
  have p1: "pageAnswers ?w1 = replicate (length trs) (Inl e) @- (map Inr post @- rest)"
    by simp
  have k1: "tokenAnswers ?w1 = map Inr trs @- trest"
    using assms(4) by simp
  have s2: "getAllDeals_loop (length trs + k) ?D ?c ?w1 = getAllDeals_loop k ?D ?c ?w2"
    by (rule getAllDeals_loop_expired_run[OF assms(1) t1 assms(3) p1 k1])
  have b1: "bearers ?w1 trs = bearers w trs" "refreshTokens ?w1 trs = refreshTokens w trs"
    by (simp_all add: bearers_def refreshTokens_def)
  from retries_pages[OF p1 k1, of ?c]
  have a2: "pageAnswers ?w2 = map Inr post @- rest"
    and r2: "pageRequests ?w2 =
      pageRequests w @ map ?req (cursorsFrom None pre) @
      map (\<lambda>b. (batchSize (config w), ?c, b)) (butlast (bearers w trs))"
    by (simp_all add: b1)
  from retries_tokens[of "afterPageRequest ?c" ?w1 trs trest, OF _ _ _ _ k1]
  have ta2: "tokenAnswers ?w2 = trest"
    and tr2: "tokenRequests ?w2 =
      tokenRequests w @
      map (\<lambda>r. (clientId (config w), clientSecret (config w), r)) (butlast (refreshTokens w trs))"
    and ct2: "clientToken ?w2 = last (bearers w trs)"
    and bs2: "batchSize (config ?w2) = batchSize (config w)"
    by (simp_all add: b1)
  let ?w3 = "?w2\<lparr>pageAnswers := rest,
         pageRequests := pageRequests ?w2 @
           map (\<lambda>c. (batchSize (config ?w2), c, clientToken ?w2)) (cursorsFrom ?c post)\<rparr>"
  have s3: "getAllDeals_loop k ?D ?c ?w2 =
      Some (Inr (?D @ concat (map page_results post)), ?w3)"
    by (rule getAllDeals_loop_pages[OF pg a2 kp])
  have run: "getAllDeals fuel w = Some (Inr (concat (map page_results (pre @ post))), ?w3)"
    unfolding getAllDeals_def s1 s2 s3 by simp
  show "\<exists>w'. getAllDeals fuel w = Some (Inr (concat (map page_results (pre @ post))), w')
         \<and> pageRequests w' =
             pageRequests w @
             map (\<lambda>c. (batchSize (config w), c, clientToken w)) (cursorsFrom None pre) @
             map (\<lambda>b. (batchSize (config w), foldl cursorAfter None pre, b))
               (butlast (bearers w trs)) @
             map (\<lambda>c. (batchSize (config w), c, last (bearers w trs)))
               (cursorsFrom (foldl cursorAfter None pre) post)
         \<and> tokenRequests w' =
             tokenRequests w @
             map (\<lambda>r. (clientId (config w), clientSecret (config w), r))
               (butlast (refreshTokens w trs))
         \<and> pageAnswers w' = rest \<and> tokenAnswers w' = trest"
    apply (rule exI[of _ ?w3])
    apply (intro conjI)
        apply (rule run)
       apply (simp add: r2 ct2 bs2)
      apply (simp add: tr2)
     apply simp
    apply (simp add: ta2)
    done
next
  assume a: "assocAnswers w = replicate (length trs) (Inl e) @- (Inr listing ## rest') \<and>
        length trs < fuel"
  define k where "k = fuel - Suc (length trs)"
  have k: "fuel = length trs + Suc k"
    using a by (auto simp: k_def)
  let ?w2 = "retries (afterAssocRequest dealId objectType) (length trs) w"
  have s2: "getAssociatedObjects fuel dealId objectType w =
      getAssociatedObjects (Suc k) dealId objectType ?w2"
    unfolding k
    by (rule getAssociatedObjects_expired_run[OF assms(1,2,3) conjunct1[OF a] assms(4)])
  from retries_assocs[OF conjunct1[OF a] assms(4), of dealId objectType]
  have a2: "assocAnswers ?w2 = Inr listing ## rest'"
    and r2: "assocRequests ?w2 =
      assocRequests w @ map (\<lambda>b. (dealId, objectType, b)) (butlast (bearers w trs))"
    by simp_all
  from retries_tokens[of "afterAssocRequest dealId objectType" w trs trest, OF _ _ _ _ assms(4)]
  have ta2: "tokenAnswers ?w2 = trest"
    and tr2: "tokenRequests ?w2 =
      tokenRequests w @
      map (\<lambda>r. (clientId (config w), clientSecret (config w), r)) (butlast (refreshTokens w trs))"
    and ct2: "clientToken ?w2 = last (bearers w trs)"
    by simp_all
  have hd: "shd (assocAnswers ?w2) = Inr listing"
    by (simp add: a2)
  from getAssociatedObjects_answered[OF hd, of k dealId objectType]
  obtain r w' where res: "getAssociatedObjects (Suc k) dealId objectType ?w2 = Some (Inr r, w')"
    and as: "(case r of Resolved a b \<Rightarrow> a | RawAssociations a \<Rightarrow> a) = assoc_results listing"
    and ar: "assocRequests w' = assocRequests ?w2 @ [(dealId, objectType, clientToken ?w2)]"
    and aa: "assocAnswers w' = stl (assocAnswers ?w2)"
    and tr: "tokenRequests w' = tokenRequests ?w2"
    and ta: "tokenAnswers w' = tokenAnswers ?w2"
    by blast
  have bl: "butlast (bearers w trs) @ [last (bearers w trs)] = bearers w trs"
    by simp
  have ar': "assocRequests w' =
      assocRequests w @ map (\<lambda>b. (dealId, objectType, b)) (bearers w trs)"
    unfolding ar r2 ct2 by (subst (3) bl[symmetric]) (simp del: append_butlast_last_id)
  show "\<exists>r w'. getAssociatedObjects fuel dealId objectType w = Some (Inr r, w')
         \<and> (case r of Resolved a b \<Rightarrow> a | RawAssociations a \<Rightarrow> a) = assoc_results listing
         \<and> assocRequests w' =
             assocRequests w @ map (\<lambda>b. (dealId, objectType, b)) (bearers w trs)
         \<and> tokenRequests w' =
             tokenRequests w @
             map (\<lambda>r. (clientId (config w), clientSecret (config w), r))
               (butlast (refreshTokens w trs))
         \<and> assocAnswers w' = rest' \<and> tokenAnswers w' = trest"
    apply (rule exI[of _ r])
    apply (rule exI[of _ w'])
    apply (intro conjI)
         apply (simp add: s2 res)
        apply (rule as)
       apply (rule ar')
      apply (simp add: tr tr2)
     apply (simp add: aa a2)
    apply (simp add: ta ta2)
    done
next
  let ?c = "foldl cursorAfter None pre"
  let ?req = "\<lambda>c. (batchSize (config w), c, clientToken w)"
  let ?D = "concat (map page_results pre)"
  assume a: "(\<forall>p \<in> set pre. nextOf p \<noteq> None) \<and>
        pageAnswers w = map Inr pre @- (replicate (length trs) (Inl e) @- (Inl e ## rest)) \<and>
        shd trest = Inl e' \<and> length pre + length trs < fuel"
  then have cont: "\<forall>p \<in> set pre. nextOf p \<noteq> None"
    and ans: "pageAnswers w = map Inr pre @- (replicate (length trs) (Inl e) @- (Inl e ## rest))"
    and fail: "shd trest = Inl e'"
    by simp_all
  define k where "k = fuel - Suc (length pre + length trs)"
  have k: "fuel = length pre + (length trs + Suc k)"
    using a by (auto simp: k_def)
  let ?w1 = "w\<lparr>pageAnswers := replicate (length trs) (Inl e) @- (Inl e ## rest),
          pageRequests := pageRequests w @ map ?req (cursorsFrom None pre)\<rparr>"
  let ?w2 = "retries (afterPageRequest ?c) (length trs) ?w1"
  have s1: "getAllDeals_loop fuel [] None w = getAllDeals_loop (length trs + Suc k) ?D ?c ?w1"
    unfolding k using getAllDeals_loop_prefix[OF cont ans, of "length trs + Suc k" "[]" None]
    by simp
  have t1: "truthy (refreshToken (config ?w1))"
    using assms(2) by simp
  have p1: "pageAnswers ?w1 = replicate (length trs) (Inl e) @- (Inl e ## rest)"
    by simp
  have k1: "tokenAnswers ?w1 = map Inr trs @- trest"
    using assms(4) by simp
  have s2: "getAllDeals_loop (length trs + Suc k) ?D ?c ?w1 = getAllDeals_loop (Suc k) ?D ?c ?w2"
    by (rule getAllDeals_loop_expired_run[OF assms(1) t1 assms(3) p1 k1])
  have b1: "bearers ?w1 trs = bearers w trs" "refreshTokens ?w1 trs = refreshTokens w trs"
    by (simp_all add: bearers_def refreshTokens_def)
  from retries_pages[OF p1 k1, of ?c]
  have a2: "pageAnswers ?w2 = Inl e ## rest"
    and r2: "pageRequests ?w2 =
      pageRequests w @ map ?req (cursorsFrom None pre) @
      map (\<lambda>b. (batchSize (config w), ?c, b)) (butlast (bearers w trs))"
    by (simp_all add: b1)
  from retries_tokens[of "afterPageRequest ?c" ?w1 trs trest, OF _ _ _ _ k1]
  have ta2: "tokenAnswers ?w2 = trest"
    and tr2: "tokenRequests ?w2 =
      tokenRequests w @
      map (\<lambda>r. (clientId (config w), clientSecret (config w), r)) (butlast (refreshTokens w trs))"
    and ct2: "clientToken ?w2 = last (bearers w trs)"
    and rt2: "refreshToken (config ?w2) = last (refreshTokens w trs)"
    and bs2: "batchSize (config ?w2) = batchSize (config w)"
    and id2: "clientId (config ?w2) = clientId (config w)"
      "clientSecret (config ?w2) = clientSecret (config w)"
    by (simp_all add: b1)
  have t2: "truthy (refreshToken (config ?w2))"
    by (rule retries_truthy[OF _ _ t1 assms(3) k1]) simp_all
  have hd: "shd (pageAnswers ?w2) = Inl e"
    by (simp add: a2)
  let ?w3 = "afterRefresh (afterPageRequest ?c ?w2)"
  have s3: "getAllDeals_loop (Suc k) ?D ?c ?w2 = Some (Inl e', ?w3)"
    using getAllDeals_loop_expired[OF hd assms(1) t2, of k ?D ?c] fail
    by (simp add: ta2)
  have run: "getAllDeals fuel w = Some (Inl e', ?w3)"
    unfolding getAllDeals_def s1 s2 s3 ..
  have bl: "butlast (bearers w trs) @ [last (bearers w trs)] = bearers w trs"
    "butlast (refreshTokens w trs) @ [last (refreshTokens w trs)] = refreshTokens w trs"
    by simp_all
  have pr3: "pageRequests ?w3 =
      pageRequests w @ map ?req (cursorsFrom None pre) @
      map (\<lambda>b. (batchSize (config w), ?c, b)) (butlast (bearers w trs) @ [last (bearers w trs)])"
    by (simp add: r2 ct2 bs2 del: append_butlast_last_id)
  have tr3: "tokenRequests ?w3 =
      tokenRequests w @
      map (\<lambda>r. (clientId (config w), clientSecret (config w), r))
        (butlast (refreshTokens w trs) @ [last (refreshTokens w trs)])"
    by (simp add: tr2 rt2 id2 del: append_butlast_last_id)
  show "\<exists>w'. getAllDeals fuel w = Some (Inl e', w')
         \<and> pageRequests w' =
             pageRequests w @
             map (\<lambda>c. (batchSize (config w), c, clientToken w)) (cursorsFrom None pre) @
             map (\<lambda>b. (batchSize (config w), foldl cursorAfter None pre, b)) (bearers w trs)
         \<and> tokenRequests w' =
             tokenRequests w @
             map (\<lambda>r. (clientId (config w), clientSecret (config w), r)) (refreshTokens w trs)"
    apply (rule exI[of _ ?w3])
    apply (intro conjI)
      apply (rule run)
     apply (rule pr3[unfolded bl])
    apply (rule tr3[unfolded bl])
    done
next
  assume a: "assocAnswers w = replicate (length trs) (Inl e) @- (Inl e ## rest') \<and>
        shd trest = Inl e' \<and> length trs < fuel"
  then have ans: "assocAnswers w = replicate (length trs) (Inl e) @- (Inl e ## rest')"
    and fail: "shd trest = Inl e'"
    by simp_all
  define k where "k = fuel - Suc (length trs)"
  have k: "fuel = length trs + Suc k"
    using a by (auto simp: k_def)
  let ?w2 = "retries (afterAssocRequest dealId objectType) (length trs) w"
  have s2: "getAssociatedObjects fuel dealId objectType w =
      getAssociatedObjects (Suc k) dealId objectType ?w2"
    unfolding k
    by (rule getAssociatedObjects_expired_run[OF assms(1,2,3) ans assms(4)])
  from retries_assocs[OF ans assms(4), of dealId objectType]
  have a2: "assocAnswers ?w2 = Inl e ## rest'"
    and r2: "assocRequests ?w2 =
      assocRequests w @ map (\<lambda>b. (dealId, objectType, b)) (butlast (bearers w trs))"
    by simp_all
  from retries_tokens[of "afterAssocRequest dealId objectType" w trs trest, OF _ _ _ _ assms(4)]
  have ta2: "tokenAnswers ?w2 = trest"
    and tr2: "tokenRequests ?w2 =
      tokenRequests w @
      map (\<lambda>r. (clientId (config w), clientSecret (config w), r)) (butlast (refreshTokens w trs))"
    and ct2: "clientToken ?w2 = last (bearers w trs)"
    and rt2: "refreshToken (config ?w2) = last (refreshTokens w trs)"
    and id2: "clientId (config ?w2) = clientId (config w)"
      "clientSecret (config ?w2) = clientSecret (config w)"
    by simp_all
  have t2: "truthy (refreshToken (config ?w2))"
    by (rule retries_truthy[OF _ _ assms(2) assms(3) assms(4)]) simp_all
  have hd: "shd (assocAnswers ?w2) = Inl e"
    by (simp add: a2)
  let ?w3 = "afterRefresh (afterAssocRequest dealId objectType ?w2)"
  have s3: "getAssociatedObjects (Suc k) dealId objectType ?w2 = Some (Inl e', ?w3)"
    using getAssociatedObjects_expired[OF hd assms(1) t2, of k dealId objectType] fail
    by (simp add: ta2)
  have run: "getAssociatedObjects fuel dealId objectType w = Some (Inl e', ?w3)"
    unfolding s2 s3 ..
  have bl: "butlast (bearers w trs) @ [last (bearers w trs)] = bearers w trs"
    "butlast (refreshTokens w trs) @ [last (refreshTokens w trs)] = refreshTokens w trs"
    by simp_all
  have ar3: "assocRequests ?w3 =
      assocRequests w @
      map (\<lambda>b. (dealId, objectType, b)) (butlast (bearers w trs) @ [last (bearers w trs)])"
    by (simp add: r2 ct2 del: append_butlast_last_id)
  have tr3: "tokenRequests ?w3 =
      tokenRequests w @
      map (\<lambda>r. (clientId (config w), clientSecret (config w), r))
        (butlast (refreshTokens w trs) @ [last (refreshTokens w trs)])"
    by (simp add: tr2 rt2 id2 del: append_butlast_last_id)
  show "\<exists>w'. getAssociatedObjects fuel dealId objectType w = Some (Inl e', w')
         \<and> assocRequests w' =
             assocRequests w @ map (\<lambda>b. (dealId, objectType, b)) (bearers w trs)
         \<and> tokenRequests w' =
             tokenRequests w @
             map (\<lambda>r. (clientId (config w), clientSecret (config w), r)) (refreshTokens w trs)"
    apply (rule exI[of _ ?w3])
    apply (intro conjI)
      apply (rule run)
     apply (rule ar3[unfolded bl])
    apply (rule tr3[unfolded bl])
    done
next
  assume a: "shd (assocAnswers w) = Inr listing \<and> assoc_results listing \<noteq> [] \<and>
        batchApiOf objectType = Some api \<and> shd (batchAnswers w) = Inl e"
  then have api: "batchApiOf objectType = Some api"
    and hd: "shd (assocAnswers w) = Inr listing"
    and ne: "assoc_results listing \<noteq> []"
    by simp_all
  show "\<exists>objects w'. getAssociatedObjects (Suc fuel) dealId objectType w =
           Some (Inr (Resolved (assoc_results listing) objects), w')
         \<and> batchRequests w' =
             batchRequests w @
             map (\<lambda>c. (api, c, clientToken w))
               (chunks 100 (map toObjectId (assoc_results listing)))
         \<and> tokenRequests w' = tokenRequests w
         \<and> assocRequests w' = assocRequests w @ [(dealId, objectType, clientToken w)]"
    unfolding getAssociatedObjects_listing[OF api hd ne]
    by simp
qed

theorem refresh_per_expiry_witness:
  "(\<exists>w'. getAllDeals 4 worldExpiredTwiceOnPage2 = Some (Inr [dealA, dealB, dealC], w')
      \<and> pageRequests w' =
          [(100, None, Some ''token-0''), (100, Some ''2'', Some ''token-0''),
           (100, Some ''2'', Some ''token-1''), (100, Some ''2'', Some ''token-2'')]
      \<and> tokenRequests w' =
          [(Some ''client'', Some ''secret'', Some ''refresh-0''),
           (Some ''client'', Some ''secret'', Some ''refresh-1'')])
   \<and> (\<exists>r w'. getAssociatedObjects 3 ''42'' ''notes'' worldExpiredTwiceOnPage2 = Some (Inr r, w')
      \<and> (case r of Resolved a b \<Rightarrow> a | RawAssociations a \<Rightarrow> a) = [exampleAssociation]
      \<and> assocRequests w' =
          [(''42'', ''notes'', Some ''token-0''), (''42'', ''notes'', Some ''token-1''),
           (''42'', ''notes'', Some ''token-2'')]
      \<and> tokenRequests w' =
          [(Some ''client'', Some ''secret'', Some ''refresh-0''),
           (Some ''client'', Some ''secret'', Some ''refresh-1'')])
   \<and> (\<exists>w'. getAllDeals 4 worldExpiredThrice = Some (Inl unavailable, w')
      \<and> pageRequests w' =
          [(100, None, Some ''token-0''), (100, Some ''2'', Some ''token-0''),
           (100, Some ''2'', Some ''token-1''), (100, Some ''2'', Some ''token-2'')]
      \<and> tokenRequests w' =
          [(Some ''client'', Some ''secret'', Some ''refresh-0''),
           (Some ''client'', Some ''secret'', Some ''refresh-1''),
           (Some ''client'', Some ''secret'', Some ''refresh-2'')])
   \<and> (\<exists>w'. getAssociatedObjects 3 ''42'' ''notes'' worldExpiredThrice = Some (Inl unavailable, w')
      \<and> assocRequests w' =
          [(''42'', ''notes'', Some ''token-0''), (''42'', ''notes'', Some ''token-1''),
           (''42'', ''notes'', Some ''token-2'')]
      \<and> tokenRequests w' =
          [(Some ''client'', Some ''secret'', Some ''refresh-0''),
           (Some ''client'', Some ''secret'', Some ''refresh-1''),
           (Some ''client'', Some ''secret'', Some ''refresh-2'')])
   \<and> (\<exists>objects w'. getAssociatedObjects (Suc 0) ''42'' ''notes'' worldReadExpired =
          Some (Inr (Resolved [exampleAssociation] objects), w')
      \<and> batchRequests w' = [(NotesApi, [''501''], Some ''token-0'')]
      \<and> tokenRequests w' = []
      \<and> assocRequests w' = [(''42'', ''notes'', Some ''token-0'')])"
proof -
  let ?trs = "[tokenResponse1, tokenResponse2]"
  let ?down = "sconst (Inl unavailable) :: (error + token_response) stream"
  have m: "includes_str (message unauthorized) ''401''"
    by (rule includes_unauthorized)
  have ne: "\<forall>tr \<in> set ?trs. res_refreshToken tr \<noteq> []"
    by (simp add: tokenResponse1_def tokenResponse2_def)
  have ne0: "\<forall>tr \<in> set ([] :: token_response list). res_refreshToken tr \<noteq> []"
    by simp
  have g2: "config worldExpiredTwiceOnPage2 = exampleConfig"
    "clientToken worldExpiredTwiceOnPage2 = Some ''token-0''"
    "pageRequests worldExpiredTwiceOnPage2 = []" "tokenRequests worldExpiredTwiceOnPage2 = []"
    "assocRequests worldExpiredTwiceOnPage2 = []"
    by (simp_all add: worldExpiredTwiceOnPage2_def exampleWorld_def)
  have g3: "config worldExpiredThrice = exampleConfig"
    "clientToken worldExpiredThrice = Some ''token-0''"
    "pageRequests worldExpiredThrice = []" "tokenRequests worldExpiredThrice = []"
    "assocRequests worldExpiredThrice = []"
    by (simp_all add: worldExpiredThrice_def exampleWorld_def)
  have g5: "config worldReadExpired = exampleConfig"
    "clientToken worldReadExpired = Some ''token-0''"
    "batchRequests worldReadExpired = []" "tokenRequests worldReadExpired = []"
    "assocRequests worldReadExpired = []"
    by (simp_all add: worldReadExpired_def exampleWorld_def)
  have t2: "truthy (refreshToken (config worldExpiredTwiceOnPage2))"
    and t3: "truthy (refreshToken (config worldExpiredThrice))"
    and t5: "truthy (refreshToken (config worldReadExpired))"
    by (simp_all add: g2 g3 g5 exampleConfig_def truthy_def)
  have k2: "tokenAnswers worldExpiredTwiceOnPage2 = map Inr ?trs @- ?down"
    and k3: "tokenAnswers worldExpiredThrice = map Inr ?trs @- ?down"
    and k5: "tokenAnswers worldReadExpired = map Inr [] @- ?down"
    by (simp_all add: worldExpiredTwiceOnPage2_def worldExpiredThrice_def worldReadExpired_def
        exampleWorld_def)
  have b: "bearers worldExpiredTwiceOnPage2 ?trs =
      [Some ''token-0'', Some ''token-1'', Some ''token-2'']"
    "bearers worldExpiredThrice ?trs = [Some ''token-0'', Some ''token-1'', Some ''token-2'']"
    by (simp_all add: bearers_def g2 g3 tokenResponse1_def tokenResponse2_def)
  have r: "refreshTokens worldExpiredTwiceOnPage2 ?trs =
      [Some ''refresh-0'', Some ''refresh-1'', Some ''refresh-2'']"
    "refreshTokens worldExpiredThrice ?trs =
      [Some ''refresh-0'', Some ''refresh-1'', Some ''refresh-2'']"
    by (simp_all add: refreshTokens_def g2 g3 exampleConfig_def tokenResponse1_def
        tokenResponse2_def)
  have c: "cursorsFrom None [page1] = [None]" "foldl cursorAfter None [page1] = Some ''2''"
    "cursorsFrom (Some ''2'') [page2] = [Some ''2'']"
    by (simp_all add: cursorAfter_def nextOf_def page1_def)
  have d: "concat (map page_results ([page1] @ [page2])) = [dealA, dealB, dealC]"
    by (simp add: page1_def page2_def)
  have ids: "clientId exampleConfig = Some ''client''" "clientSecret exampleConfig = Some ''secret''"
    "batchSize exampleConfig = 100"
    by (simp_all add: exampleConfig_def)
  have bl: "butlast [Some ''token-0'', Some ''token-1'', Some ''token-2''] =
      [Some ''token-0'', Some ''token-1'']"
    "last [Some ''token-0'', Some ''token-1'', Some ''token-2''] = Some ''token-2''"
    "butlast [Some ''refresh-0'', Some ''refresh-1'', Some ''refresh-2''] =
      [Some ''refresh-0'', Some ''refresh-1'']"
    by simp_all
  note inst2 = refresh_per_expiry[where e = unauthorized and w = worldExpiredTwiceOnPage2
      and trs = ?trs and trest = ?down and pre = "[page1]" and post = "[page2]"
      and rest = "sconst (Inl unavailable)" and fuel = 4
      and listing = "\<lparr>assoc_results = [exampleAssociation]\<rparr>"
      and rest' = "sconst (Inl unavailable)" and dealId = "''42''" and objectType = "''notes''"
      and e' = unavailable and api = NotesApi, OF m t2 ne k2]
  note inst2a = refresh_per_expiry[where e = unauthorized and w = worldExpiredTwiceOnPage2
      and trs = ?trs and trest = ?down and pre = "[page1]" and post = "[page2]"
      and rest = "sconst (Inl unavailable)" and fuel = 3
      and listing = "\<lparr>assoc_results = [exampleAssociation]\<rparr>"
      and rest' = "sconst (Inl unavailable)" and dealId = "''42''" and objectType = "''notes''"
      and e' = unavailable and api = NotesApi, OF m t2 ne k2]
  note inst3 = refresh_per_expiry[where e = unauthorized and w = worldExpiredThrice
      and trs = ?trs and trest = ?down and pre = "[page1]" and post = "[page2]"
      and rest = "sconst (Inl unavailable)" and fuel = 4
      and listing = "\<lparr>assoc_results = [exampleAssociation]\<rparr>"
      and rest' = "sconst (Inl unavailable)" and dealId = "''42''" and objectType = "''notes''"
      and e' = unavailable and api = NotesApi, OF m t3 ne k3]
  note inst3a = refresh_per_expiry[where e = unauthorized and w = worldExpiredThrice
      and trs = ?trs and trest = ?down and pre = "[page1]" and post = "[page2]"
      and rest = "sconst (Inl unavailable)" and fuel = 3
      and listing = "\<lparr>assoc_results = [exampleAssociation]\<rparr>"
      and rest' = "sconst (Inl unavailable)" and dealId = "''42''" and objectType = "''notes''"
      and e' = unavailable and api = NotesApi, OF m t3 ne k3]
  note inst5 = refresh_per_expiry[where e = unauthorized and w = worldReadExpired
      and trs = "[]" and trest = ?down and pre = "[page1]" and post = "[page2]"
      and rest = "sconst (Inl unavailable)" and fuel = 0
      and listing = "\<lparr>assoc_results = [exampleAssociation]\<rparr>"
      and rest' = "sconst (Inl unavailable)" and dealId = "''42''" and objectType = "''notes''"
      and e' = unavailable and api = NotesApi, OF m t5 ne0 k5]
  have h1: "pagination ([page1] @ [page2]) \<and> [page2] \<noteq> [] \<and>
      pageAnswers worldExpiredTwiceOnPage2 =
        map Inr [page1] @- (replicate (length ?trs) (Inl unauthorized) @-
          (map Inr [page2] @- sconst (Inl unavailable))) \<and>
      length [page1] + length ?trs + length [page2] \<le> 4"
    using pagination_example by (simp add: worldExpiredTwiceOnPage2_def)
  have h2: "assocAnswers worldExpiredTwiceOnPage2 =
        replicate (length ?trs) (Inl unauthorized) @-
          (Inr \<lparr>assoc_results = [exampleAssociation]\<rparr> ## sconst (Inl unavailable)) \<and>
      length ?trs < 3"
    by (simp add: worldExpiredTwiceOnPage2_def)
  have h3: "(\<forall>p \<in> set [page1]. nextOf p \<noteq> None) \<and>
      pageAnswers worldExpiredThrice =
        map Inr [page1] @- (replicate (length ?trs) (Inl unauthorized) @-
          (Inl unauthorized ## sconst (Inl unavailable))) \<and>
      shd ?down = Inl unavailable \<and> length [page1] + length ?trs < 4"
    by (simp add: worldExpiredThrice_def nextOf_def page1_def)
  have h4: "assocAnswers worldExpiredThrice =
        replicate (length ?trs) (Inl unauthorized) @-
          (Inl unauthorized ## sconst (Inl unavailable)) \<and>
      shd ?down = Inl unavailable \<and> length ?trs < 3"
    by (simp add: worldExpiredThrice_def)
  have h5: "shd (assocAnswers worldReadExpired) = Inr \<lparr>assoc_results = [exampleAssociation]\<rparr> \<and>
      assoc_results \<lparr>assoc_results = [exampleAssociation]\<rparr> \<noteq> [] \<and>
      batchApiOf ''notes'' = Some NotesApi \<and>
      shd (batchAnswers worldReadExpired) = Inl unauthorized"
    by (simp add: worldReadExpired_def batchApiOf_notes)
  have 1: "\<exists>w'. getAllDeals 4 worldExpiredTwiceOnPage2 = Some (Inr [dealA, dealB, dealC], w')
      \<and> pageRequests w' =
          [(100, None, Some ''token-0''), (100, Some ''2'', Some ''token-0''),
           (100, Some ''2'', Some ''token-1''), (100, Some ''2'', Some ''token-2'')]
      \<and> tokenRequests w' =
          [(Some ''client'', Some ''secret'', Some ''refresh-0''),
           (Some ''client'', Some ''secret'', Some ''refresh-1'')]"
    using inst2[THEN conjunct1, THEN mp, OF h1]
    unfolding b r c d g2 ids bl
    by auto
  have 2: "\<exists>r w'. getAssociatedObjects 3 ''42'' ''notes'' worldExpiredTwiceOnPage2 =
        Some (Inr r, w')
      \<and> (case r of Resolved a b \<Rightarrow> a | RawAssociations a \<Rightarrow> a) = [exampleAssociation]
      \<and> assocRequests w' =
          [(''42'', ''notes'', Some ''token-0''), (''42'', ''notes'', Some ''token-1''),
           (''42'', ''notes'', Some ''token-2'')]
      \<and> tokenRequests w' =
          [(Some ''client'', Some ''secret'', Some ''refresh-0''),
           (Some ''client'', Some ''secret'', Some ''refresh-1'')]"
    using inst2a[THEN conjunct2, THEN conjunct1, THEN mp, OF h2]
    unfolding b r g2 ids bl
    by auto
  have 3: "\<exists>w'. getAllDeals 4 worldExpiredThrice = Some (Inl unavailable, w')
      \<and> pageRequests w' =
          [(100, None, Some ''token-0''), (100, Some ''2'', Some ''token-0''),
           (100, Some ''2'', Some ''token-1''), (100, Some ''2'', Some ''token-2'')]
      \<and> tokenRequests w' =
          [(Some ''client'', Some ''secret'', Some ''refresh-0''),
           (Some ''client'', Some ''secret'', Some ''refresh-1''),
           (Some ''client'', Some ''secret'', Some ''refresh-2'')]"
    using inst3[THEN conjunct2, THEN conjunct2, THEN conjunct1, THEN mp, OF h3]
    unfolding b r c g3 ids
    by auto
  have 4: "\<exists>w'. getAssociatedObjects 3 ''42'' ''notes'' worldExpiredThrice =
        Some (Inl unavailable, w')
      \<and> assocRequests w' =
          [(''42'', ''notes'', Some ''token-0''), (''42'', ''notes'', Some ''token-1''),
           (''42'', ''notes'', Some ''token-2'')]
      \<and> tokenRequests w' =
          [(Some ''client'', Some ''secret'', Some ''refresh-0''),
           (Some ''client'', Some ''secret'', Some ''refresh-1''),
           (Some ''client'', Some ''secret'', Some ''refresh-2'')]"
    using inst3a[THEN conjunct2, THEN conjunct2, THEN conjunct2, THEN conjunct1, THEN mp, OF h4]
    unfolding b r g3 ids
    by auto
  have 5: "\<exists>objects w'. getAssociatedObjects (Suc 0) ''42'' ''notes'' worldReadExpired =
          Some (Inr (Resolved [exampleAssociation] objects), w')
      \<and> batchRequests w' = [(NotesApi, [''501''], Some ''token-0'')]
      \<and> tokenRequests w' = []
      \<and> assocRequests w' = [(''42'', ''notes'', Some ''token-0'')]"
    using inst5[THEN conjunct2, THEN conjunct2, THEN conjunct2, THEN conjunct2, THEN mp, OF h5]
    unfolding g5
    by (simp add: chunks_single exampleAssociation_def)
  show ?thesis
    apply (intro conjI)
        apply (rule 1)
       apply (rule 2)
      apply (rule 3)
     apply (rule 4)
    apply (rule 5)
    done
qed

subsection \<open>Activity files\<close>

text \<open>
  Claim C6. The filesystem lets every operation proceed and the association listings are
  answered without expiry from the \<open>n\<close>-th answer on. Then the loop of the driver over
  the deals returns, and the files it writes are, in the order of the deals, the file
  \<^verbatim>\<open>activities/{dealId}.json\<close> with the record of the deal for exactly the deals whose
  record has an engagement type with a non-empty association list: the file of a deal is
  among the files written if and only if its record has one. The whole export writes
  \<^verbatim>\<open>deals.json\<close> and then these files for the deals that were listed.
\<close>

theorem activity_files:
  assumes "calm w" and "quiet n (assocAnswers w)" and "n < fuel"
  shows "(\<exists>w'. deals_loop fuel deals w = Some (Inr (), w')
            \<and> length (aggregates fuel deals w) = length deals
            \<and> outWrites w' = outWrites w @ activityWrites deals (aggregates fuel deals w))
     \<and> (\<forall>i < length deals.
           ((activityFile (deal_ident (deals ! i)), ActivitiesDoc (aggregates fuel deals w ! i))
              \<in> set (activityWrites deals (aggregates fuel deals w))) =
           hasActivities (aggregates fuel deals w ! i))
     \<and> (\<forall>fetched w1. getAllDeals fuel w = Some (Inr fetched, w1) \<longrightarrow>
           (\<exists>w'. exportDealsAndActivities fuel w = Some (Inr (), w')
              \<and> outWrites w' =
                  outWrites w @ (''deals.json'', DealsDoc fetched) #
                  activityWrites fetched (aggregates fuel fetched w1)))"
proof (intro conjI allI impI)
  show loop: "\<exists>w'. deals_loop fuel deals w = Some (Inr (), w')
            \<and> length (aggregates fuel deals w) = length deals
            \<and> outWrites w' = outWrites w @ activityWrites deals (aggregates fuel deals w)"
    by (rule deals_loop_writes[OF assms(3,1,2)])
  then have len: "length (aggregates fuel deals w) = length deals" by blast
  fix i
  assume "i < length deals"
  then show "((activityFile (deal_ident (deals ! i)), ActivitiesDoc (aggregates fuel deals w ! i))
              \<in> set (activityWrites deals (aggregates fuel deals w))) =
           hasActivities (aggregates fuel deals w ! i)"
    by (rule activityWrites_iff[OF len])
next
  fix fetched w1
  assume g: "getAllDeals fuel w = Some (Inr fetched, w1)"
  from getAllDeals_loop_frame[OF g[unfolded getAllDeals_def]] assms(1,2)
  have c1: "calm w1" and q1: "quiet n (assocAnswers w1)" and o1: "outWrites w1 = outWrites w"
    by simp_all
  let ?w2 = "w1\<lparr>outWrites := outWrites w1 @ [(''deals.json'', DealsDoc fetched)]\<rparr>"
  have sv: "saveToFile (DealsDoc fetched) ''deals.json'' w1 = (Inr (), ?w2)"
    by (rule saveToFile_calm[OF c1])
  have c2: "calm ?w2" and q2: "quiet n (assocAnswers ?w2)"
    using c1 q1 by simp_all
  from deals_loop_writes[OF assms(3) c2 q2, of fetched] obtain w' where
    l: "deals_loop fuel fetched ?w2 = Some (Inr (), w')"
    and o: "outWrites w' = outWrites ?w2 @ activityWrites fetched (aggregates fuel fetched ?w2)"
    by blast
  have "exportDealsAndActivities_try fuel w = Some (Inr (), w')"
    by (simp add: exportDealsAndActivities_try_def ensureDirectoryExists_calm[OF assms(1)] g sv l)
  then have "exportDealsAndActivities fuel w = Some (Inr (), w')"
    by (simp add: exportDealsAndActivities_def)
  moreover have "outWrites w' =
      outWrites w @ (''deals.json'', DealsDoc fetched) #
      activityWrites fetched (aggregates fuel fetched w1)"
    using o o1 by (simp add: aggregates_writes)
  ultimately show "\<exists>w'. exportDealsAndActivities fuel w = Some (Inr (), w')
              \<and> outWrites w' =
                  outWrites w @ (''deals.json'', DealsDoc fetched) #
                  activityWrites fetched (aggregates fuel fetched w1)"
    by blast
qed

theorem activity_files_witness:
  "\<exists>w'. exportDealsAndActivities (Suc 0) worldExport = Some (Inr (), w')
     \<and> outWrites w' =
         [(''deals.json'', DealsDoc [dealC, dealA]),
          (''activities/C.json'', ActivitiesDoc recordC)]"
proof -
  have c: "calm worldExport"
    by (simp add: calm_def worldExport_def exampleWorld_def)
  have q: "quiet 0 (assocAnswers worldExport)"
    by (simp add: worldExport_def quiet_0_SCons quiet_0_sconst)
  have h: "hasActivities recordC"
    by (simp add: hasActivities_def hasAssociations_def recordC_def)
  have o: "outWrites worldExport = []"
    by (simp add: worldExport_def exampleWorld_def)
  have w: "activityWrites [dealC, dealA]
      (aggregates (Suc 0) [dealC, dealA] (afterPageRequest None worldExport)) =
      [(''activities/C.json'', ActivitiesDoc recordC)]"
    unfolding exportExample_records
    by (simp add: activityWrites_def hasActivities_def hasAssociations_def recordC_def
        activityFile_def dealC_def)
  from activity_files[OF c q, of "Suc 0" "[]"] exportExample_listing
  obtain w' where
    "exportDealsAndActivities (Suc 0) worldExport = Some (Inr (), w')"
    and "outWrites w' =
        outWrites worldExport @ (''deals.json'', DealsDoc [dealC, dealA]) #
        activityWrites [dealC, dealA]
          (aggregates (Suc 0) [dealC, dealA] (afterPageRequest None worldExport))"
    by auto
  then show ?thesis
    unfolding w o by simp
qed

subsection \<open>Token lines of the configuration file\<close>

text \<open>
  Claim C9 says that a persist call rewrites the three token lines and leaves every other
  line as it was. The patterns are not anchored to the start of a line and replace their
  leftmost match only. So in this file the line of the setting
  \<^verbatim>\<open>STAGING_HUBSPOT_ACCESS_TOKEN\<close> is rewritten with the new access token and the line
  \<^verbatim>\<open>HUBSPOT_ACCESS_TOKEN\<close> keeps the old one, in the sync script and in the OAuth
  script alike.
\<close>

theorem persist_rewrites_other_key:
  "envFile (snd (updateEnvFile tokens1 worldStaging)) =
     Some (unlines
       [''STAGING_HUBSPOT_ACCESS_TOKEN=token-1'',
        ''HUBSPOT_ACCESS_TOKEN=token-0'',
        ''HUBSPOT_REFRESH_TOKEN=refresh-1'',
        ''HUBSPOT_TOKEN_EXPIRES_AT=1801000'',
        ''OUTPUT_DIR=./data''])
   \<and> envFile (snd (oauth_updateEnvFile oauthConstants tokens1 worldStaging)) =
     Some (unlines
       [''STAGING_HUBSPOT_ACCESS_TOKEN=token-1'',
        ''HUBSPOT_ACCESS_TOKEN=token-0'',
        ''HUBSPOT_REFRESH_TOKEN=refresh-1'',
        ''HUBSPOT_TOKEN_EXPIRES_AT=1801000'',
        ''OUTPUT_DIR=./data''])"
proof -
  have a: "shd (fsFaults worldStaging) = None" "shd (stl (fsFaults worldStaging)) = None"
    "envFile worldStaging = Some stagingEnv"
    by (simp_all add: worldStaging_def exampleWorld_def)
  have 1: "envFile (snd (updateEnvFile tokens1 worldStaging)) =
      Some (updateTokenValues tokens1 stagingEnv)"
    by (simp add: updateEnvFile_envFile a)
  have 2: "envFile (snd (oauth_updateEnvFile oauthConstants tokens1 worldStaging)) =
      Some (updateTokenValues tokens1 stagingEnv)"
    using a
    by (simp add: oauth_updateEnvFile_def oauth_updateEnvFile_try_def readFile_env_def
        writeFile_env_def Let_def)
  show ?thesis
    unfolding 1 2 updateTokenValues_staging by simp
qed

end
